theory Spec2Isabelle
  imports Main "HOL-Library.Signed_Division" "HOL-Library.Word"
begin

section \<open>Polynomial<T>: a dense polynomial over a coefficient type T\<close>

text \<open>
  The class template \<^verbatim>\<open>Polynomial<T>\<close> of \<^verbatim>\<open>19 Utilities/Polynomial.cpp\<close> owns a heap array
  \<^verbatim>\<open>T* terms\<close> and an \<^verbatim>\<open>int degree_\<close>. The template parameter \<open>T\<close> is the type variable
  \<open>'a\<close>; its operators \<^verbatim>\<open>+ - * < >=\<close>, \<^verbatim>\<open>std::abs\<close> and \<^verbatim>\<open>T(0)\<close> are the operations of the
  type classes named in each definition, so that a theorem holds for every instance
  (the unbounded \<open>int\<close> as well as a type with wrap-around arithmetic). Overflow of a
  signed \<open>T\<close>, which C++ leaves undefined, and rounding of a floating-point \<open>T\<close> are not
  part of the model. The examples are at \<open>int\<close>, as \<^verbatim>\<open>Polynomial<int>\<close> in \<^verbatim>\<open>main\<close>. The one
  member that computes outside \<open>T\<close> is \<^verbatim>\<open>evaluate\<close>: it is modelled at \<^verbatim>\<open>T = int\<close>, with
  32-bit integers and the \<^verbatim>\<open>double\<close> arithmetic it goes through.

  The pointer \<^verbatim>\<open>terms\<close> is \<open>None\<close> when it is \<^verbatim>\<open>nullptr\<close> and \<open>Some cs\<close> when it points to
  an array holding the elements \<open>cs\<close>. The member \<^verbatim>\<open>degree_\<close> is the field \<open>degree\<close> (an
  Isabelle name cannot end with an underscore); the accessor \<^verbatim>\<open>degree()\<close> returns it
  unchanged and is the same selector. Degrees and array sizes are far below \<open>2^31\<close> in
  everything stated here and are integers without a width.
\<close>

datatype error =
    bad_array_new_length   \<comment> \<open>the exception \<^verbatim>\<open>std::bad_array_new_length\<close> of a new-expression\<close>
  | undefined_behaviour    \<comment> \<open>a read or write through \<^verbatim>\<open>nullptr\<close> or outside the array, or
                                the conversion to \<^verbatim>\<open>int\<close> of a \<^verbatim>\<open>double\<close> outside its range\<close>

record 'a Polynomial =
  terms :: "'a list option"
  degree :: int

subsection \<open>The heap array\<close>

text \<open>
  \<^verbatim>\<open>new T[n]{0}\<close>, with \<open>n\<close> a run-time value. The size expression is erroneous when it is
  negative, and also when the braced initialiser provides more elements (here one) than
  the array has, which is the case \<open>n = 0\<close>; the new-expression then throws
  \<^verbatim>\<open>std::bad_array_new_length\<close> ([expr.new]). Otherwise the first element is \<open>0\<close> and the
  others are value-initialised, which is zero again.
\<close>

definition new_zeroed :: "int \<Rightarrow> error + ('a::zero) list" where
  "new_zeroed n = (if n \<le> 0 then Inl bad_array_new_length else Inr (replicate (nat n) 0))"

text \<open>Reading \<^verbatim>\<open>terms[i]\<close> and writing \<^verbatim>\<open>result.terms[i] = v\<close>; the array of a result is
  the one just allocated, so the writes take the array itself.\<close>

definition load :: "'a list option \<Rightarrow> int \<Rightarrow> error + 'a" where
  "load buf i =
     (case buf of
        None \<Rightarrow> Inl undefined_behaviour
      | Some cs \<Rightarrow> if 0 \<le> i \<and> i < int (length cs) then Inr (cs ! nat i)
                   else Inl undefined_behaviour)"

definition store :: "'a list \<Rightarrow> int \<Rightarrow> 'a \<Rightarrow> error + 'a list" where
  "store cs i v =
     (if 0 \<le> i \<and> i < int (length cs) then Inr (cs[nat i := v]) else Inl undefined_behaviour)"

text \<open>Sequencing of calls: the first failure is the failure of the whole.\<close>

definition and_then :: "error + 'a \<Rightarrow> ('a \<Rightarrow> error + 'b) \<Rightarrow> error + 'b" where
  "and_then r f = (case r of Inl e \<Rightarrow> Inl e | Inr v \<Rightarrow> f v)"

subsection \<open>Constructors\<close>

text \<open>
  \<^verbatim>\<open>Polynomial()=default;\<close> The constructor is defaulted on its first declaration and the
  members have no initialisers, so it writes neither of them: the object keeps what its
  storage held before. Value-initialisation (\<^verbatim>\<open>Polynomial<T> p{};\<close>, \<^verbatim>\<open>Polynomial<T>()\<close>)
  zero-initialises the storage first; default-initialisation (\<^verbatim>\<open>Polynomial<T> p;\<close>) leaves
  it indeterminate.
\<close>

definition Polynomial_default :: "'a Polynomial \<Rightarrow> 'a Polynomial" where
  "Polynomial_default storage = storage"

abbreviation zeroed_storage :: "'a Polynomial" where
  "zeroed_storage \<equiv> \<lparr>terms = None, degree = 0\<rparr>"

text \<open>
  \<^verbatim>\<open>Polynomial(std::initializer_list<T> coeffs)\<close>: the degree is \<^verbatim>\<open>coeffs.size() - 1\<close>, the
  array is \<^verbatim>\<open>new T[degree_ + 1]{0}\<close>, and the loop stores the listed values from index
  \<^verbatim>\<open>degree_\<close> downwards.
\<close>

fun init_loop :: "'a list \<Rightarrow> int \<Rightarrow> 'a list \<Rightarrow> error + 'a list" where
  "init_loop buf i [] = Inr buf"
| "init_loop buf i (coeff # rest) =
     (case store buf i coeff of
        Inl e \<Rightarrow> Inl e
      | Inr buf' \<Rightarrow> init_loop buf' (i - 1) rest)"

definition Polynomial_init :: "('a::zero) list \<Rightarrow> error + 'a Polynomial" where
  "Polynomial_init coeffs =
     (let d = int (length coeffs) - 1 in
      case new_zeroed (d + 1) of
        Inl e \<Rightarrow> Inl e
      | Inr buf \<Rightarrow>
          (case init_loop buf d coeffs of
             Inl e \<Rightarrow> Inl e
           | Inr buf' \<Rightarrow> Inr \<lparr>terms = Some buf', degree = d\<rparr>))"

text \<open>
  The move constructor takes the array and the degree of \<open>other\<close> and leaves \<open>other\<close> with
  \<^verbatim>\<open>nullptr\<close> and degree \<open>-1\<close>. The result is the pair of the new object and \<open>other\<close>
  afterwards.
\<close>

abbreviation moved_from :: "'a Polynomial" where
  "moved_from \<equiv> \<lparr>terms = None, degree = - 1\<rparr>"

definition Polynomial_move :: "'a Polynomial \<Rightarrow> 'a Polynomial \<times> 'a Polynomial" where
  "Polynomial_move other = (\<lparr>terms = terms other, degree = degree other\<rparr>, moved_from)"

text \<open>
  A non-empty polynomial: the array is there, it has at least one element, and the degree
  is its last index. Every object built by \<open>Polynomial_init\<close> from a non-empty list is one.
\<close>

definition valid :: "'a Polynomial \<Rightarrow> bool" where
  "valid p =
     (case terms p of
        None \<Rightarrow> False
      | Some cs \<Rightarrow> cs \<noteq> [] \<and> degree p = int (length cs) - 1)"

subsection \<open>Indexed read\<close>

text \<open>\<^verbatim>\<open>T operator[](int exp) const\<close>, the \<open>get(exp)\<close> of the specification.\<close>

definition operator_index :: "('a::zero) Polynomial \<Rightarrow> int \<Rightarrow> error + 'a" where
  "operator_index p exp =
     (if exp \<le> degree p \<and> exp \<ge> 0 then load (terms p) exp else Inr 0)"

subsection \<open>Evaluation\<close>

text \<open>
  \<^verbatim>\<open>evaluate\<close> is modelled at \<^verbatim>\<open>T = int\<close>, the instance \<^verbatim>\<open>main\<close> uses, because there the
  statement \<^verbatim>\<open>result += terms[i] * std::pow(x, i)\<close> leaves \<open>T\<close>: \<^verbatim>\<open>std::pow\<close> of two \<^verbatim>\<open>int\<close>
  arguments is the \<^verbatim>\<open>double\<close> overload, the product and the sum are formed in \<^verbatim>\<open>double\<close>,
  and the sum is converted back to \<^verbatim>\<open>int\<close> in every iteration. An \<^verbatim>\<open>int\<close> is a \<open>32 word\<close>
  read by \<open>sint\<close>.

  A \<^verbatim>\<open>double\<close> is an IEEE 754 binary64 number. Every \<^verbatim>\<open>double\<close> of this computation is
  an integer, an infinity or a NaN: \<open>Finite v\<close> is the finite one of value \<open>v\<close>. The sign
  of a zero has no effect on any result here and is not kept.
\<close>

datatype double = Finite int | PlusInf | MinusInf | NaN

text \<open>The number of binary digits of a magnitude.\<close>

function bit_length :: "int \<Rightarrow> nat" where
  "bit_length n = (if n \<le> 0 then 0 else Suc (bit_length (n div 2)))"
  by pat_completeness auto
termination
  by (relation "measure nat") auto

text \<open>
  Rounding of an integer to the nearest \<^verbatim>\<open>double\<close>, ties to the even significand: the
  significand keeps 53 bits, the \<open>e\<close> bits below them are rounded away, and a magnitude
  that reaches \<open>2^1024\<close> after rounding is an infinity.
\<close>

definition round_to_double :: "int \<Rightarrow> double" where
  "round_to_double v =
     (let a = \<bar>v\<bar>;
          e = bit_length a - 53;
          q = a div 2 ^ e;
          r = a mod 2 ^ e;
          q' = (if 2 ^ e < 2 * r \<or> (2 * r = 2 ^ e \<and> odd q) then q + 1 else q);
          m = q' * 2 ^ e
      in if 2 ^ 1024 \<le> m then (if v < 0 then MinusInf else PlusInf)
         else Finite (sgn v * m))"

definition dneg :: "double \<Rightarrow> double" where
  "dneg d = (case d of Finite v \<Rightarrow> Finite (- v) | PlusInf \<Rightarrow> MinusInf
             | MinusInf \<Rightarrow> PlusInf | NaN \<Rightarrow> NaN)"

text \<open>The product and the sum of two \<^verbatim>\<open>double\<close>s: the exact result, rounded; zero times an
  infinity and the sum of opposite infinities are NaN.\<close>

fun dmul :: "double \<Rightarrow> double \<Rightarrow> double" where
  "dmul (Finite a) (Finite b) = round_to_double (a * b)"
| "dmul NaN y = NaN"
| "dmul x NaN = NaN"
| "dmul (Finite a) y = (if a = 0 then NaN else if 0 < a then y else dneg y)"
| "dmul x (Finite b) = (if b = 0 then NaN else if 0 < b then x else dneg x)"
| "dmul x y = (if x = y then PlusInf else MinusInf)"

fun dadd :: "double \<Rightarrow> double \<Rightarrow> double" where
  "dadd (Finite a) (Finite b) = round_to_double (a + b)"
| "dadd NaN y = NaN"
| "dadd x NaN = NaN"
| "dadd (Finite a) y = y"
| "dadd x (Finite b) = x"
| "dadd x y = (if x = y then x else NaN)"

text \<open>
  The conversions. Every \<^verbatim>\<open>int\<close> is a \<^verbatim>\<open>double\<close>. A \<^verbatim>\<open>double\<close> is converted to \<^verbatim>\<open>int\<close> by
  dropping its fraction, of which there is none here; when the value is not in the range
  of \<^verbatim>\<open>int\<close>, or is no number, the behaviour is undefined ([conv.fpint]).
\<close>

definition int_to_double :: "32 word \<Rightarrow> double" where
  "int_to_double c = Finite (sint c)"

definition in_int_range :: "int \<Rightarrow> bool" where
  "in_int_range v = (- (2 ^ 31) \<le> v \<and> v < 2 ^ 31)"

definition double_to_int :: "double \<Rightarrow> error + 32 word" where
  "double_to_int d =
     (case d of
        Finite v \<Rightarrow> if in_int_range v then Inr (word_of_int v) else Inl undefined_behaviour
      | PlusInf \<Rightarrow> Inl undefined_behaviour
      | MinusInf \<Rightarrow> Inl undefined_behaviour
      | NaN \<Rightarrow> Inl undefined_behaviour)"

definition is_finite :: "double \<Rightarrow> bool" where
  "is_finite d = (case d of Finite v \<Rightarrow> True | PlusInf \<Rightarrow> False | MinusInf \<Rightarrow> False
                  | NaN \<Rightarrow> False)"

text \<open>
  \<^verbatim>\<open>std::pow(x, i)\<close> with the loop counter as exponent, which is never negative: both
  arguments are converted to \<^verbatim>\<open>double\<close> and the result is the power, rounded. The
  library is taken to round the power correctly; what is proved below uses only that a
  power below \<open>2^53\<close> in magnitude is returned exactly.
\<close>

definition std_pow :: "32 word \<Rightarrow> int \<Rightarrow> double" where
  "std_pow x i = round_to_double (sint x ^ nat i)"

text \<open>The loop body \<^verbatim>\<open>result += terms[i] * std::pow(x, i)\<close> with \<open>c\<close> for \<^verbatim>\<open>terms[i]\<close>:
  the new value of \<^verbatim>\<open>result\<close>.\<close>

definition add_term :: "32 word \<Rightarrow> 32 word \<Rightarrow> int \<Rightarrow> 32 word \<Rightarrow> error + 32 word" where
  "add_term x c i result =
     double_to_int (dadd (int_to_double result) (dmul (int_to_double c) (std_pow x i)))"

text \<open>
  \<^verbatim>\<open>for (int i = 0; i <= degree_; ++i) result += terms[i] * std::pow(x, i);\<close>
  The loop is a function of the counter and the running \<open>result\<close>.
\<close>

function evaluate_loop ::
  "32 word Polynomial \<Rightarrow> 32 word \<Rightarrow> int \<Rightarrow> 32 word \<Rightarrow> error + 32 word" where
  "evaluate_loop p x i result =
     (if i \<le> degree p then
        (case load (terms p) i of
           Inl e \<Rightarrow> Inl e
         | Inr c \<Rightarrow>
             (case add_term x c i result of
                Inl e \<Rightarrow> Inl e
              | Inr result' \<Rightarrow> evaluate_loop p x (i + 1) result'))
      else Inr result)"
  by pat_completeness auto
termination
  by (relation "measure (\<lambda>(p, x, i, result). nat (degree p + 1 - i))") auto

definition evaluate :: "32 word Polynomial \<Rightarrow> 32 word \<Rightarrow> error + 32 word" where
  "evaluate p x = evaluate_loop p x 0 0"

text \<open>A loop over a list that stops at the first failure, to state what a loop computes.\<close>

fun foldl_error :: "('b \<Rightarrow> 'a \<Rightarrow> error + 'b) \<Rightarrow> 'b \<Rightarrow> 'a list \<Rightarrow> error + 'b" where
  "foldl_error f b [] = Inr b"
| "foldl_error f b (a # as) =
     (case f b a of Inl e \<Rightarrow> Inl e | Inr b' \<Rightarrow> foldl_error f b' as)"

subsection \<open>Derivative and integral\<close>

text \<open>
  \<^verbatim>\<open>result.terms = new T[degree_]{0};\<close>
  \<^verbatim>\<open>for (int i = 1; i <= degree_; ++i) result.terms[i - 1] = terms[i] * i;\<close>
  The counter \<open>i\<close> is converted to \<open>T\<close> for the product.
\<close>

function derivative_loop ::
  "('a::ring_1) Polynomial \<Rightarrow> int \<Rightarrow> 'a list \<Rightarrow> error + 'a list" where
  "derivative_loop p i buf =
     (if i \<le> degree p then
        (case load (terms p) i of
           Inl e \<Rightarrow> Inl e
         | Inr c \<Rightarrow>
             (case store buf (i - 1) (c * of_int i) of
                Inl e \<Rightarrow> Inl e
              | Inr buf' \<Rightarrow> derivative_loop p (i + 1) buf'))
      else Inr buf)"
  by pat_completeness auto
termination
  by (relation "measure (\<lambda>(p, i, buf). nat (degree p + 1 - i))") auto

definition derivative :: "('a::ring_1) Polynomial \<Rightarrow> error + 'a Polynomial" where
  "derivative p =
     (case new_zeroed (degree p) of
        Inl e \<Rightarrow> Inl e
      | Inr buf \<Rightarrow>
          (case derivative_loop p 1 buf of
             Inl e \<Rightarrow> Inl e
           | Inr buf' \<Rightarrow> Inr \<lparr>terms = Some buf', degree = degree p - 1\<rparr>))"

text \<open>
  \<^verbatim>\<open>result.terms = new T[degree_ + 2]{0};\<close>
  \<^verbatim>\<open>for (int i = 0; i <= degree_; ++i) result.terms[i + 1] = terms[i] / (i + 1);\<close>
  The operator \<^verbatim>\<open>/\<close> of \<open>T\<close> is \<open>sdiv\<close>, which on \<open>int\<close> rounds towards zero as the
  division of a C++ \<^verbatim>\<open>int\<close> does (Isabelle's \<open>div\<close> rounds downwards).
\<close>

function integral_loop ::
  "('a::{signed_divide,ring_1}) Polynomial \<Rightarrow> int \<Rightarrow> 'a list \<Rightarrow> error + 'a list" where
  "integral_loop p i buf =
     (if i \<le> degree p then
        (case load (terms p) i of
           Inl e \<Rightarrow> Inl e
         | Inr c \<Rightarrow>
             (case store buf (i + 1) (c sdiv of_int (i + 1)) of
                Inl e \<Rightarrow> Inl e
              | Inr buf' \<Rightarrow> integral_loop p (i + 1) buf'))
      else Inr buf)"
  by pat_completeness auto
termination
  by (relation "measure (\<lambda>(p, i, buf). nat (degree p + 1 - i))") auto

definition integral :: "('a::{signed_divide,ring_1}) Polynomial \<Rightarrow> error + 'a Polynomial" where
  "integral p =
     (case new_zeroed (degree p + 2) of
        Inl e \<Rightarrow> Inl e
      | Inr buf \<Rightarrow>
          (case integral_loop p 0 buf of
             Inl e \<Rightarrow> Inl e
           | Inr buf' \<Rightarrow> Inr \<lparr>terms = Some buf', degree = degree p + 1\<rparr>))"

subsection \<open>Arithmetic\<close>

text \<open>
  \<^verbatim>\<open>operator+\<close> and \<^verbatim>\<open>operator-\<close>: the array is \<^verbatim>\<open>new T[max_degree + 1]{0}\<close> and the loop
  stores \<^verbatim>\<open>(*this)[i] + other[i]\<close>, read through the const \<^verbatim>\<open>operator[]\<close>, for
  \<open>i\<close> from \<open>0\<close> to \<^verbatim>\<open>max_degree\<close>.
\<close>

function plus_loop ::
  "('a::{zero,plus}) Polynomial \<Rightarrow> 'a Polynomial \<Rightarrow> int \<Rightarrow> int \<Rightarrow> 'a list \<Rightarrow> error + 'a list"
  where
  "plus_loop p other max_degree i buf =
     (if i \<le> max_degree then
        (case operator_index p i of
           Inl e \<Rightarrow> Inl e
         | Inr a \<Rightarrow>
             (case operator_index other i of
                Inl e \<Rightarrow> Inl e
              | Inr b \<Rightarrow>
                  (case store buf i (a + b) of
                     Inl e \<Rightarrow> Inl e
                   | Inr buf' \<Rightarrow> plus_loop p other max_degree (i + 1) buf')))
      else Inr buf)"
  by pat_completeness auto
termination
  by (relation "measure (\<lambda>(p, other, max_degree, i, buf). nat (max_degree + 1 - i))") auto

definition operator_plus ::
  "('a::{zero,plus}) Polynomial \<Rightarrow> 'a Polynomial \<Rightarrow> error + 'a Polynomial" where
  "operator_plus p other =
     (let max_degree = max (degree p) (degree other) in
      case new_zeroed (max_degree + 1) of
        Inl e \<Rightarrow> Inl e
      | Inr buf \<Rightarrow>
          (case plus_loop p other max_degree 0 buf of
             Inl e \<Rightarrow> Inl e
           | Inr buf' \<Rightarrow> Inr \<lparr>terms = Some buf', degree = max_degree\<rparr>))"

function minus_loop ::
  "('a::{zero,minus}) Polynomial \<Rightarrow> 'a Polynomial \<Rightarrow> int \<Rightarrow> int \<Rightarrow> 'a list \<Rightarrow> error + 'a list"
  where
  "minus_loop p other max_degree i buf =
     (if i \<le> max_degree then
        (case operator_index p i of
           Inl e \<Rightarrow> Inl e
         | Inr a \<Rightarrow>
             (case operator_index other i of
                Inl e \<Rightarrow> Inl e
              | Inr b \<Rightarrow>
                  (case store buf i (a - b) of
                     Inl e \<Rightarrow> Inl e
                   | Inr buf' \<Rightarrow> minus_loop p other max_degree (i + 1) buf')))
      else Inr buf)"
  by pat_completeness auto
termination
  by (relation "measure (\<lambda>(p, other, max_degree, i, buf). nat (max_degree + 1 - i))") auto

definition operator_minus ::
  "('a::{zero,minus}) Polynomial \<Rightarrow> 'a Polynomial \<Rightarrow> error + 'a Polynomial" where
  "operator_minus p other =
     (let max_degree = max (degree p) (degree other) in
      case new_zeroed (max_degree + 1) of
        Inl e \<Rightarrow> Inl e
      | Inr buf \<Rightarrow>
          (case minus_loop p other max_degree 0 buf of
             Inl e \<Rightarrow> Inl e
           | Inr buf' \<Rightarrow> Inr \<lparr>terms = Some buf', degree = max_degree\<rparr>))"

text \<open>
  \<^verbatim>\<open>operator*(const Polynomial& other)\<close>: the array is \<^verbatim>\<open>new T[new_degree + 1]{0}\<close>; the
  inner loop runs \<open>j\<close> from \<open>0\<close> to \<^verbatim>\<open>other.degree_\<close> with
  \<^verbatim>\<open>result.terms[i + j] += terms[i] * other.terms[j]\<close>, the outer loop runs \<open>i\<close> from \<open>0\<close>
  to \<^verbatim>\<open>degree_\<close>. Both operands are read directly, not through \<^verbatim>\<open>operator[]\<close>.
\<close>

function times_inner ::
  "('a::{plus,times}) Polynomial \<Rightarrow> 'a Polynomial \<Rightarrow> int \<Rightarrow> int \<Rightarrow> 'a list \<Rightarrow> error + 'a list"
  where
  "times_inner p other i j buf =
     (if j \<le> degree other then
        (case load (terms p) i of
           Inl e \<Rightarrow> Inl e
         | Inr a \<Rightarrow>
             (case load (terms other) j of
                Inl e \<Rightarrow> Inl e
              | Inr b \<Rightarrow>
                  (case load (Some buf) (i + j) of
                     Inl e \<Rightarrow> Inl e
                   | Inr r \<Rightarrow>
                       (case store buf (i + j) (r + a * b) of
                          Inl e \<Rightarrow> Inl e
                        | Inr buf' \<Rightarrow> times_inner p other i (j + 1) buf'))))
      else Inr buf)"
  by pat_completeness auto
termination
  by (relation "measure (\<lambda>(p, other, i, j, buf). nat (degree other + 1 - j))") auto

function times_outer ::
  "('a::{plus,times}) Polynomial \<Rightarrow> 'a Polynomial \<Rightarrow> int \<Rightarrow> 'a list \<Rightarrow> error + 'a list"
  where
  "times_outer p other i buf =
     (if i \<le> degree p then
        (case times_inner p other i 0 buf of
           Inl e \<Rightarrow> Inl e
         | Inr buf' \<Rightarrow> times_outer p other (i + 1) buf')
      else Inr buf)"
  by pat_completeness auto
termination
  by (relation "measure (\<lambda>(p, other, i, buf). nat (degree p + 1 - i))") auto

definition operator_times ::
  "('a::{zero,plus,times}) Polynomial \<Rightarrow> 'a Polynomial \<Rightarrow> error + 'a Polynomial" where
  "operator_times p other =
     (let new_degree = degree p + degree other in
      case new_zeroed (new_degree + 1) of
        Inl e \<Rightarrow> Inl e
      | Inr buf \<Rightarrow>
          (case times_outer p other 0 buf of
             Inl e \<Rightarrow> Inl e
           | Inr buf' \<Rightarrow> Inr \<lparr>terms = Some buf', degree = new_degree\<rparr>))"

subsection \<open>Equality\<close>

text \<open>
  \<^verbatim>\<open>operator==\<close>: \<^verbatim>\<open>false\<close> at once when the degrees differ; otherwise the loop compares
  \<^verbatim>\<open>terms[i]\<close> with \<^verbatim>\<open>other.terms[i]\<close> for \<open>i\<close> from \<open>0\<close> to \<^verbatim>\<open>degree_\<close> and returns
  \<^verbatim>\<open>false\<close> at the first difference.
\<close>

function eq_loop :: "'a Polynomial \<Rightarrow> 'a Polynomial \<Rightarrow> int \<Rightarrow> error + bool" where
  "eq_loop p other i =
     (if i \<le> degree p then
        (case load (terms p) i of
           Inl e \<Rightarrow> Inl e
         | Inr a \<Rightarrow>
             (case load (terms other) i of
                Inl e \<Rightarrow> Inl e
              | Inr b \<Rightarrow> if a \<noteq> b then Inr False else eq_loop p other (i + 1)))
      else Inr True)"
  by pat_completeness auto
termination
  by (relation "measure (\<lambda>(p, other, i). nat (degree p + 1 - i))") auto

definition operator_eq :: "'a Polynomial \<Rightarrow> 'a Polynomial \<Rightarrow> error + bool" where
  "operator_eq p other =
     (if degree p \<noteq> degree other then Inr False else eq_loop p other 0)"

subsection \<open>Printing\<close>

text \<open>
  \<^verbatim>\<open>os << n\<close> for an \<^verbatim>\<open>int\<close> on a stream in its initial state writes the decimal digits,
  after a minus sign when \<open>n\<close> is negative.
\<close>

fun show_nat :: "nat \<Rightarrow> string" where
  "show_nat n =
     (if n < 10 then [''0123456789'' ! n]
      else show_nat (n div 10) @ [''0123456789'' ! (n mod 10)])"

definition show_int :: "int \<Rightarrow> string" where
  "show_int k = (if k < 0 then ''-'' @ show_nat (nat (- k)) else show_nat (nat k))"

text \<open>
  \<^verbatim>\<open>operator<<(std::ostream& os, const Polynomial& poly)\<close>. The stream is the string of the
  characters written so far; \<open>sh\<close> is \<^verbatim>\<open>os << v\<close> for a value of \<open>T\<close>. The loop runs \<open>i\<close>
  from \<^verbatim>\<open>poly.degree_\<close> down to \<open>0\<close> and carries the flag \<^verbatim>\<open>first\<close>.
\<close>

function lshift_loop ::
  "('a \<Rightarrow> string) \<Rightarrow> ('a::{zero,one,ord,abs}) Polynomial \<Rightarrow> int \<Rightarrow> bool \<Rightarrow> string
     \<Rightarrow> error + string" where
  "lshift_loop sh poly i first os =
     (if i \<ge> 0 then
        (case load (terms poly) i of
           Inl e \<Rightarrow> Inl e
         | Inr c \<Rightarrow>
             (let os1 = (if \<not> first \<and> c \<ge> 0 then os @ '' + '' else os);
                  os2 = (if c < 0 then os1 @ '' - '' else os1);
                  os3 = (if \<bar>c\<bar> \<noteq> 1 \<or> i = 0 then os2 @ sh \<bar>c\<bar> else os2);
                  os4 = (if i \<noteq> 0 then os3 @ ''x'' else os3);
                  os5 = (if i > 1 then os4 @ ''^'' @ show_int i else os4)
              in lshift_loop sh poly (i - 1) False os5))
      else Inr os)"
  by pat_completeness auto
termination
  by (relation "measure (\<lambda>(sh, poly, i, first, os). nat (i + 1))") auto

definition operator_lshift ::
  "('a \<Rightarrow> string) \<Rightarrow> string \<Rightarrow> ('a::{zero,one,ord,abs}) Polynomial \<Rightarrow> error + string" where
  "operator_lshift sh os poly = lshift_loop sh poly (degree poly) True os"

text \<open>
  The text of one term in the words of the specification: a \<open>" + "\<close> when the term is not
  the first one rendered and its coefficient is at least zero; a \<open>" - "\<close> when the
  coefficient is below zero; the absolute value of the coefficient unless it is \<open>1\<close> on a
  term of non-zero index; the variable when the index is not \<open>0\<close>; and \<open>^\<close> with the
  index when the index is above \<open>1\<close>. Nothing in it depends on the coefficient being zero.
\<close>

definition term_text ::
  "('a \<Rightarrow> string) \<Rightarrow> bool \<Rightarrow> ('a::{zero,one,ord,abs}) \<Rightarrow> int \<Rightarrow> string" where
  "term_text sh first c i =
     (if \<not> first \<and> c \<ge> 0 then '' + '' else [])
     @ (if c < 0 then '' - '' else [])
     @ (if \<bar>c\<bar> = 1 \<and> i \<noteq> 0 then [] else sh \<bar>c\<bar>)
     @ (if i \<noteq> 0 then ''x'' else [])
     @ (if i > 1 then ''^'' @ show_int i else [])"

section \<open>Properties\<close>

declare evaluate_loop.simps [simp del] derivative_loop.simps [simp del]
  integral_loop.simps [simp del] plus_loop.simps [simp del] minus_loop.simps [simp del]
  times_inner.simps [simp del] times_outer.simps [simp del] eq_loop.simps [simp del]
  lshift_loop.simps [simp del] show_nat.simps [simp del] bit_length.simps [simp del]

lemma and_then_Inr [simp]: "and_then (Inr v) f = f v"
  by (simp add: and_then_def)

lemma and_then_Inl [simp]: "and_then (Inl e) f = Inl e"
  by (simp add: and_then_def)

subsection \<open>Construction\<close>

lemma validE:
  assumes "valid p"
  obtains cs where "terms p = Some cs" and "cs \<noteq> []" and "degree p = int (length cs) - 1"
  using assms by (auto simp: valid_def split: option.splits)

lemma init_loop_rev:
  "int (length coeffs) = i + 1 \<Longrightarrow> length coeffs \<le> length buf \<Longrightarrow>
   init_loop buf i coeffs = Inr (rev coeffs @ drop (length coeffs) buf)"
proof (induction coeffs arbitrary: buf i)
  case Nil
  then show ?case by simp
next
  case (Cons c cs)
  have n: "nat i = length cs" using Cons.prems by simp
  have st: "store buf i c = Inr (buf[length cs := c])"
    using Cons.prems by (simp add: store_def n)
  have "init_loop (buf[length cs := c]) (i - 1) cs
          = Inr (rev cs @ drop (length cs) (buf[length cs := c]))"
    using Cons.prems by (intro Cons.IH) auto
  moreover have "drop (length cs) (buf[length cs := c]) = c # drop (Suc (length cs)) buf"
    using Cons.prems by (simp add: Cons_nth_drop_Suc [symmetric] upd_conv_take_nth_drop)
  ultimately show ?case by (simp add: st)
qed

lemma Polynomial_init_rev:
  assumes "coeffs \<noteq> []"
  shows "Polynomial_init coeffs
           = Inr \<lparr>terms = Some (rev coeffs), degree = int (length coeffs) - 1\<rparr>"
proof -
  have "init_loop (replicate (length coeffs) 0) (int (length coeffs) - 1) coeffs
          = Inr (rev coeffs @ drop (length coeffs) (replicate (length coeffs) 0))"
    by (rule init_loop_rev) simp_all
  then show ?thesis
    using assms by (simp add: Polynomial_init_def new_zeroed_def Let_def)
qed

lemma Polynomial_init_valid:
  "coeffs \<noteq> [] \<Longrightarrow> \<exists>p. Polynomial_init coeffs = Inr p \<and> valid p"
  by (simp add: Polynomial_init_rev valid_def)

lemma Polynomial_move_source: "snd (Polynomial_move other) = moved_from"
  by (simp add: Polynomial_move_def)

text \<open>
  C3. Default construction should give an empty instance: no array and degree \<open>-1\<close>, the
  state the move constructor leaves behind. The defaulted constructor writes no member:
  a value-initialised object \<^verbatim>\<open>Polynomial<int> p{}\<close> has no array but degree \<open>0\<close>, so it is
  not the empty instance, and its indexed read at \<open>0\<close> goes through \<^verbatim>\<open>nullptr\<close>.
\<close>

theorem Polynomial_default_zeroed:
  "terms (Polynomial_default (zeroed_storage :: int Polynomial)) = None
   \<and> degree (Polynomial_default (zeroed_storage :: int Polynomial)) = 0
   \<and> Polynomial_default (zeroed_storage :: int Polynomial) \<noteq> moved_from
   \<and> operator_index (Polynomial_default (zeroed_storage :: int Polynomial)) 0
         = Inl undefined_behaviour"
  by (simp add: Polynomial_default_def operator_index_def load_def)

subsection \<open>Indexed read\<close>

lemma operator_index_inside:
  "terms p = Some cs \<Longrightarrow> degree p = int (length cs) - 1 \<Longrightarrow> 0 \<le> i \<Longrightarrow> i \<le> degree p
   \<Longrightarrow> operator_index p i = Inr (cs ! nat i)"
  by (simp add: operator_index_def load_def)

lemma operator_index_outside:
  "i < 0 \<or> degree p < i \<Longrightarrow> operator_index p i = Inr 0"
  by (auto simp: operator_index_def)

text \<open>
  C2. For a non-empty polynomial \<open>p\<close> with coefficients \<open>cs\<close> the const indexed read never
  fails: at an exponent below \<open>0\<close> or above the degree it returns the zero of \<open>T\<close>, and at
  an exponent from \<open>0\<close> to the degree it returns the coefficient stored at that index.
\<close>

theorem operator_index_never_fails:
  assumes "valid p" and "terms p = Some cs"
  shows "(exp < 0 \<or> degree p < exp \<longrightarrow> operator_index p exp = Inr 0)
         \<and> (0 \<le> exp \<and> exp \<le> degree p \<longrightarrow> operator_index p exp = Inr (cs ! nat exp))"
proof -
  from assms have d: "degree p = int (length cs) - 1"
    by (auto elim: validE)
  show ?thesis
    using assms(2) d by (simp add: operator_index_inside operator_index_outside)
qed

theorem operator_index_never_fails_witness:
  "valid \<lparr>terms = Some [- 4, 0, 3 :: int], degree = 2\<rparr>
   \<and> operator_index \<lparr>terms = Some [- 4, 0, 3 :: int], degree = 2\<rparr> (- 1) = Inr 0
   \<and> operator_index \<lparr>terms = Some [- 4, 0, 3 :: int], degree = 2\<rparr> 3 = Inr 0
   \<and> operator_index \<lparr>terms = Some [- 4, 0, 3 :: int], degree = 2\<rparr> 2 = Inr 3
   \<and> operator_index \<lparr>terms = Some [- 4, 0, 3 :: int], degree = 2\<rparr> 0 = Inr (- 4)"
proof -
  let ?p = "\<lparr>terms = Some [- 4, 0, 3 :: int], degree = 2\<rparr>"
  have v: "valid ?p" by (simp add: valid_def)
  have t: "terms ?p = Some [- 4, 0, 3]" by simp
  show ?thesis
    using v operator_index_never_fails [OF v t, of "- 1"]
      operator_index_never_fails [OF v t, of 3]
      operator_index_never_fails [OF v t, of 2]
      operator_index_never_fails [OF v t, of 0]
    by simp
qed

subsection \<open>Evaluation\<close>

lemma bit_length_le: "n < 2 ^ k \<Longrightarrow> bit_length n \<le> k"
proof (induction k arbitrary: n)
  case 0
  then show ?case by (subst bit_length.simps) simp
next
  case (Suc k)
  show ?case
  proof (cases "n \<le> 0")
    case True
    then show ?thesis by (subst bit_length.simps) simp
  next
    case False
    from Suc.prems have "n div 2 < 2 ^ k" by simp
    then have "bit_length (n div 2) \<le> k" by (rule Suc.IH)
    then show ?thesis using False by (subst bit_length.simps) simp
  qed
qed

lemma round_to_double_exact:
  assumes "\<bar>v\<bar> < 2 ^ 53"
  shows "round_to_double v = Finite v"
proof -
  have e: "bit_length \<bar>v\<bar> - 53 = 0"
    using bit_length_le [OF assms] by simp
  have "\<bar>v\<bar> < (2 ^ 1024 :: int)"
    using assms by (rule less_trans) simp
  then show ?thesis
    by (simp add: round_to_double_def Let_def e mult_sgn_abs)
qed

lemma sint_word_of_int_range:
  "in_int_range s \<Longrightarrow> sint (word_of_int s :: 32 word) = s"
  by (simp add: in_int_range_def int_word_sint)

lemma in_int_range_abs: "in_int_range s \<Longrightarrow> \<bar>s\<bar> \<le> 2 ^ 31"
  by (simp add: in_int_range_def abs_le_iff)

text \<open>One iteration, when the running result stays in range: the \<^verbatim>\<open>double\<close> arithmetic
  is exact. A zero coefficient needs a finite power, since zero times an infinity is NaN
  (\<open>add_term_zero_times_infinity\<close> below).\<close>

lemma add_term_exact:
  assumes "in_int_range s" and "in_int_range (s + sint c * sint x ^ nat i)"
    and "c = 0 \<longrightarrow> is_finite (std_pow x i)"
  shows "add_term x c i (word_of_int s) = Inr (word_of_int (s + sint c * sint x ^ nat i))"
proof (cases "c = 0")
  case True
  with assms(3) obtain w where w: "std_pow x i = Finite w"
    by (auto simp: is_finite_def split: double.splits)
  have "\<bar>s\<bar> < 2 ^ 53"
    using in_int_range_abs [OF assms(1)] by simp
  then have "round_to_double s = Finite s" by (rule round_to_double_exact)
  moreover have "round_to_double 0 = Finite 0" by (rule round_to_double_exact) simp
  ultimately show ?thesis
    using True assms(1)
    by (simp add: add_term_def int_to_double_def w double_to_int_def sint_word_of_int_range)
next
  case False
  let ?pw = "sint x ^ nat i"
  let ?t = "sint c * ?pw"
  have s: "\<bar>s\<bar> \<le> 2 ^ 31"
    using assms(1) by (rule in_int_range_abs)
  have s': "\<bar>s + ?t\<bar> \<le> 2 ^ 31"
    using assms(2) by (rule in_int_range_abs)
  have t: "\<bar>?t\<bar> \<le> 2 ^ 32" using s s' by simp
  have "sint c \<noteq> 0" using False by (simp add: signed_eq_0_iff)
  then have "1 \<le> \<bar>sint c\<bar>" by simp
  then have "\<bar>?pw\<bar> \<le> \<bar>sint c\<bar> * \<bar>?pw\<bar>"
    by (simp add: mult_le_cancel_right1)
  then have pw: "\<bar>?pw\<bar> \<le> 2 ^ 32" using t by (simp add: abs_mult)
  have 1: "std_pow x i = Finite ?pw"
    unfolding std_pow_def using pw by (intro round_to_double_exact) simp
  have 2: "round_to_double ?t = Finite ?t"
    using t by (intro round_to_double_exact) simp
  have 3: "round_to_double (s + ?t) = Finite (s + ?t)"
    using s' by (intro round_to_double_exact) simp
  show ?thesis
    using assms(1,2)
    by (simp add: add_term_def int_to_double_def 1 2 3 double_to_int_def sint_word_of_int_range)
qed

lemma evaluate_loop_fold:
  "terms p = Some cs \<Longrightarrow> degree p = int (length cs) - 1 \<Longrightarrow> 0 \<le> i \<Longrightarrow> i \<le> int (length cs) \<Longrightarrow>
   evaluate_loop p x i result
     = foldl_error (\<lambda>r k. add_term x (cs ! k) (int k) r) result [nat i..<length cs]"
proof (induction p x i result rule: evaluate_loop.induct)
  case (1 p x i result)
  show ?case
  proof (cases "i \<le> degree p")
    case True
    with "1.prems" have lt: "nat i < length cs" by simp
    have ld: "load (terms p) i = Inr (cs ! nat i)"
      using "1.prems" lt by (simp add: load_def)
    have up: "[nat i..<length cs] = nat i # [nat (i + 1)..<length cs]"
      using lt "1.prems" by (simp add: upt_conv_Cons nat_add_distrib)
    show ?thesis
    proof (cases "add_term x (cs ! nat i) i result")
      case (Inl e)
      then show ?thesis
        using True ld "1.prems" by (subst evaluate_loop.simps) (simp add: up)
    next
      case (Inr result')
      have "evaluate_loop p x (i + 1) result'
              = foldl_error (\<lambda>r k. add_term x (cs ! k) (int k) r) result' [nat (i + 1)..<length cs]"
        using True ld Inr "1.prems" lt by (intro "1.IH") auto
      then show ?thesis
        using True ld Inr "1.prems" by (subst evaluate_loop.simps) (simp add: up)
    qed
  next
    case False
    with "1.prems" have "nat i = length cs" by simp
    then show ?thesis
      using False by (subst evaluate_loop.simps) simp
  qed
qed

lemma foldl_error_snoc:
  "foldl_error f b (as @ [a]) = and_then (foldl_error f b as) (\<lambda>b'. f b' a)"
  by (induction as arbitrary: b) (auto split: sum.splits)

lemma foldl_error_sum:
  assumes "\<forall>k\<le>n. in_int_range (\<Sum>i<k. sint (cs ! i) * sint x ^ i)"
    and "\<forall>i<n. cs ! i = 0 \<longrightarrow> is_finite (std_pow x (int i))"
  shows "k \<le> n \<Longrightarrow>
         foldl_error (\<lambda>r k. add_term x (cs ! k) (int k) r) 0 [0..<k]
           = Inr (word_of_int (\<Sum>i<k. sint (cs ! i) * sint x ^ i))"
proof (induction k)
  case 0
  then show ?case by simp
next
  case (Suc k)
  let ?S = "\<Sum>i<k. sint (cs ! i) * sint x ^ i"
  have a: "in_int_range ?S" using assms(1) Suc.prems by simp
  have "in_int_range (\<Sum>i<Suc k. sint (cs ! i) * sint x ^ i)"
    using assms(1) Suc.prems by blast
  then have b: "in_int_range (?S + sint (cs ! k) * sint x ^ nat (int k))" by simp
  have c: "cs ! k = 0 \<longrightarrow> is_finite (std_pow x (int k))"
    using assms(2) Suc.prems by simp
  have "add_term x (cs ! k) (int k) (word_of_int ?S)
          = Inr (word_of_int (?S + sint (cs ! k) * sint x ^ nat (int k)))"
    using a b c by (rule add_term_exact)
  then show ?case
    using Suc by (simp add: foldl_error_snoc)
qed

lemma add_term_zero_times_infinity:
  "add_term (- 2147483648) 0 34 5 = Inl undefined_behaviour"
  by code_simp

text \<open>
  C4, amended. For a non-empty polynomial over \<^verbatim>\<open>int\<close> with coefficients \<open>cs\<close> and an input
  \<open>x\<close>, \<open>evaluate\<close> adds to the running result, from \<open>i = 0\<close> up to the degree, the term
  \<open>cs ! i\<close> times \<^verbatim>\<open>std::pow(x, i)\<close>, each term computed on its own. When every running
  result, the sum of the terms of index below \<open>k\<close> for every \<open>k\<close> up to the number of
  coefficients, is in the range of \<^verbatim>\<open>int\<close>, and the power is a finite \<^verbatim>\<open>double\<close> wherever the
  coefficient is zero, \<open>evaluate\<close> returns the sum of the \<open>cs ! i * x ^ i\<close>. The polynomial
  constructed from \<open>[3, 0, -4]\<close> evaluates to \<open>8\<close> at \<open>2\<close>.
\<close>

theorem evaluate_sum:
  assumes "valid p" and "terms p = Some cs"
    and "\<forall>k\<le>length cs. in_int_range (\<Sum>i<k. sint (cs ! i) * sint x ^ i)"
    and "\<forall>i<length cs. cs ! i = 0 \<longrightarrow> is_finite (std_pow x (int i))"
  shows "evaluate p x
           = foldl_error (\<lambda>result i. add_term x (cs ! i) (int i) result) 0 [0..<length cs]
         \<and> evaluate p x = Inr (word_of_int (\<Sum>i<length cs. sint (cs ! i) * sint x ^ i))
         \<and> (\<exists>r. evaluate p x = Inr r \<and> sint r = (\<Sum>i<length cs. sint (cs ! i) * sint x ^ i))
         \<and> and_then (Polynomial_init [3, 0, - 4]) (\<lambda>p1. evaluate p1 2) = Inr 8"
proof -
  from assms have d: "degree p = int (length cs) - 1"
    by (auto elim: validE)
  have 1: "evaluate p x
             = foldl_error (\<lambda>result i. add_term x (cs ! i) (int i) result) 0 [0..<length cs]"
    unfolding evaluate_def using evaluate_loop_fold [OF assms(2) d, of 0 x 0] by simp
  have 2: "foldl_error (\<lambda>result i. add_term x (cs ! i) (int i) result) 0 [0..<length cs]
             = Inr (word_of_int (\<Sum>i<length cs. sint (cs ! i) * sint x ^ i))"
    using assms(3,4) by (rule foldl_error_sum) simp
  have 3: "sint (word_of_int (\<Sum>i<length cs. sint (cs ! i) * sint x ^ i) :: 32 word)
             = (\<Sum>i<length cs. sint (cs ! i) * sint x ^ i)"
    using assms(3) by (intro sint_word_of_int_range) simp
  have 4: "and_then (Polynomial_init [3, 0, - 4]) (\<lambda>p1. evaluate p1 2) = Inr 8"
    by code_simp
  from 1 2 3 4 show ?thesis by simp
qed


theorem evaluate_sum_witness:
  "valid \<lparr>terms = Some [- 4, 0, 3 :: 32 word], degree = 2\<rparr>
   \<and> in_int_range (- 4) \<and> in_int_range (- 4 + 0 * 2) \<and> in_int_range (- 4 + 0 * 2 + 3 * 2 ^ 2)
   \<and> is_finite (std_pow 2 1)
   \<and> evaluate \<lparr>terms = Some [- 4, 0, 3], degree = 2\<rparr> 2 = Inr 8"
proof -
  let ?cs = "[- 4, 0, 3 :: 32 word]"
  let ?p = "\<lparr>terms = Some ?cs, degree = 2\<rparr>"
  have v: "valid ?p" by (simp add: valid_def)
  have t: "terms ?p = Some ?cs" by simp
  have r: "\<forall>k\<le>length ?cs. in_int_range (\<Sum>i<k. sint (?cs ! i) * sint (2 :: 32 word) ^ i)"
    by (auto simp: le_Suc_eq lessThan_Suc in_int_range_def)
  have f: "\<forall>i<length ?cs. ?cs ! i = 0 \<longrightarrow> is_finite (std_pow 2 (int i))"
    by (auto simp: less_Suc_eq std_pow_def round_to_double_exact is_finite_def)
  have s: "(\<Sum>i<length ?cs. sint (?cs ! i) * sint (2 :: 32 word) ^ i) = 8"
    by (simp add: lessThan_Suc numeral_3_eq_3)
  have "evaluate ?p 2 = Inr (word_of_int 8)"
    using evaluate_sum [OF v t r f, THEN conjunct2, THEN conjunct1] by (simp only: s)
  then have "evaluate ?p 2 = Inr 8" by simp
  moreover have "in_int_range (- 4)" and "in_int_range (- 4 + 0 * 2)"
    and "in_int_range (- 4 + 0 * 2 + 3 * 2 ^ 2)"
    by (simp_all add: in_int_range_def)
  moreover have "is_finite (std_pow 2 1)"
    by (simp add: std_pow_def round_to_double_exact is_finite_def)
  ultimately show ?thesis using v by (intro conjI)
qed

text \<open>
  Without the range the sum is not what is returned: \<open>x^2 - 65536x\<close>, constructed from
  \<open>[1, -65536, 0]\<close>, has the value \<open>0\<close> at \<open>65536\<close>, but the running result after the term of
  index \<open>1\<close> is \<open>-2^32\<close>, which is no \<^verbatim>\<open>int\<close>, and its conversion is undefined.
\<close>

theorem evaluate_sum_counterexample:
  "Polynomial_init [1, - 65536, 0 :: 32 word]
     = Inr \<lparr>terms = Some [0, - 65536, 1], degree = 2\<rparr>
   \<and> sint (0 :: 32 word) * sint (65536 :: 32 word) ^ 0
       + sint (- 65536 :: 32 word) * sint (65536 :: 32 word) ^ 1
       + sint (1 :: 32 word) * sint (65536 :: 32 word) ^ 2 = 0
   \<and> evaluate \<lparr>terms = Some [0, - 65536, 1], degree = 2\<rparr> 65536 = Inl undefined_behaviour"
  by code_simp

subsection \<open>Derivative\<close>

lemma derivative_loop_map:
  "terms p = Some cs \<Longrightarrow> degree p = int (length cs) - 1 \<Longrightarrow> int (length buf) = degree p \<Longrightarrow>
   1 \<le> i \<Longrightarrow> i \<le> int (length cs) \<Longrightarrow>
   derivative_loop p i buf
     = Inr (map (\<lambda>k. if nat i \<le> k + 1 then cs ! (k + 1) * of_int (int k + 1) else buf ! k)
              [0..<length buf])"
proof (induction p i buf rule: derivative_loop.induct)
  case (1 p i buf)
  show ?case
  proof (cases "i \<le> degree p")
    case True
    let ?v = "cs ! nat i * of_int i"
    let ?buf = "buf[nat (i - 1) := ?v]"
    have ld: "load (terms p) i = Inr (cs ! nat i)"
      using "1.prems" True by (simp add: load_def)
    have st: "store buf (i - 1) ?v = Inr ?buf"
      using "1.prems" True by (simp add: store_def)
    have "derivative_loop p (i + 1) ?buf
            = Inr (map (\<lambda>k. if nat (i + 1) \<le> k + 1 then cs ! (k + 1) * of_int (int k + 1)
                             else ?buf ! k) [0..<length ?buf])"
      using True ld st "1.prems" by (intro "1.IH") auto
    moreover have "map (\<lambda>k. if nat (i + 1) \<le> k + 1 then cs ! (k + 1) * of_int (int k + 1)
                             else ?buf ! k) [0..<length ?buf]
                 = map (\<lambda>k. if nat i \<le> k + 1 then cs ! (k + 1) * of_int (int k + 1)
                             else buf ! k) [0..<length buf]"
    proof (rule map_cong)
      show "[0..<length ?buf] = [0..<length buf]" by simp
    next
      fix k assume "k \<in> set [0..<length buf]"
      then have k: "k < length buf" by simp
      consider "nat i \<le> k" | "nat i = k + 1" | "k + 1 < nat i" by linarith
      then show "(if nat (i + 1) \<le> k + 1 then cs ! (k + 1) * of_int (int k + 1) else ?buf ! k)
               = (if nat i \<le> k + 1 then cs ! (k + 1) * of_int (int k + 1) else buf ! k)"
      proof cases
        case 1
        then have "nat (i + 1) \<le> k + 1" and "nat i \<le> k + 1"
          using "1.prems" by simp_all
        then show ?thesis by simp
      next
        case 2
        then have "nat (i - 1) = k" and "int k + 1 = i" and "\<not> nat (i + 1) \<le> k + 1"
          using "1.prems" by simp_all
        then show ?thesis using k 2 by simp
      next
        case 3
        then have "nat (i - 1) \<noteq> k" and "\<not> nat (i + 1) \<le> k + 1" and "\<not> nat i \<le> k + 1"
          using "1.prems" by simp_all
        then show ?thesis by simp
      qed
    qed
    ultimately show ?thesis
      using True ld st by (subst derivative_loop.simps) simp
  next
    case False
    with "1.prems" have "nat i = length buf + 1" by simp
    then have "map (\<lambda>k. if nat i \<le> k + 1 then cs ! (k + 1) * of_int (int k + 1) else buf ! k)
                 [0..<length buf] = buf"
      by (intro nth_equalityI) simp_all
    then show ?thesis
      using False by (subst derivative_loop.simps) simp
  qed
qed

lemma derivative_higher_degree:
  fixes p :: "'a::ring_1 Polynomial"
  assumes "valid p" and "terms p = Some cs" and "1 \<le> degree p"
  shows "derivative p
           = Inr \<lparr>terms = Some (map (\<lambda>k. cs ! (k + 1) * of_int (int k + 1)) [0..<length cs - 1]),
                  degree = degree p - 1\<rparr>"
proof -
  from assms have d: "degree p = int (length cs) - 1"
    by (auto elim: validE)
  have n: "nat (degree p) = length cs - 1" using d by simp
  have "derivative_loop p 1 (replicate (nat (degree p)) 0)
          = Inr (map (\<lambda>k. if nat 1 \<le> k + 1 then cs ! (k + 1) * of_int (int k + 1)
                           else replicate (nat (degree p)) 0 ! k)
                   [0..<length (replicate (nat (degree p)) (0::'a))])"
    using assms d by (intro derivative_loop_map) auto
  then show ?thesis
    using assms(3) by (simp add: derivative_def new_zeroed_def n)
qed

lemma derivative_constant:
  "degree p = 0 \<Longrightarrow> derivative p = Inl bad_array_new_length"
  by (simp add: derivative_def new_zeroed_def)

lemma derivative_example:
  "and_then (Polynomial_init [3, 0, - 4 :: int]) derivative
     = Inr \<lparr>terms = Some [0, 6], degree = 1\<rparr>"
  by code_simp

text \<open>
  C5. The derivative of a polynomial of degree \<open>0\<close> should be the empty polynomial: degree
  \<open>-1\<close> and an array of no elements. The code sets the degree to \<open>-1\<close> and asks for
  \<^verbatim>\<open>new T[0]{0}\<close>, an array of no elements with one initialiser, so the new-expression
  throws and no polynomial is returned. For a degree of at least \<open>1\<close> the result is as
  claimed (\<open>derivative_higher_degree\<close>, \<open>derivative_example\<close>).
\<close>

theorem derivative_of_constant:
  "and_then (Polynomial_init [5 :: int]) derivative = Inl bad_array_new_length"
  by (simp add: Polynomial_init_rev derivative_def new_zeroed_def)

subsection \<open>Integral\<close>

lemma integral_loop_map:
  "terms p = Some cs \<Longrightarrow> degree p = int (length cs) - 1 \<Longrightarrow> int (length buf) = degree p + 2 \<Longrightarrow>
   0 \<le> i \<Longrightarrow> i \<le> int (length cs) \<Longrightarrow>
   integral_loop p i buf
     = Inr (map (\<lambda>k. if nat i + 1 \<le> k then cs ! (k - 1) sdiv of_int (int k) else buf ! k)
              [0..<length buf])"
proof (induction p i buf rule: integral_loop.induct)
  case (1 p i buf)
  show ?case
  proof (cases "i \<le> degree p")
    case True
    let ?v = "cs ! nat i sdiv of_int (i + 1)"
    let ?buf = "buf[nat (i + 1) := ?v]"
    have ld: "load (terms p) i = Inr (cs ! nat i)"
      using "1.prems" True by (simp add: load_def)
    have st: "store buf (i + 1) ?v = Inr ?buf"
      using "1.prems" True by (simp add: store_def)
    have "integral_loop p (i + 1) ?buf
            = Inr (map (\<lambda>k. if nat (i + 1) + 1 \<le> k then cs ! (k - 1) sdiv of_int (int k)
                             else ?buf ! k) [0..<length ?buf])"
      using True ld st "1.prems" by (intro "1.IH") auto
    moreover have "map (\<lambda>k. if nat (i + 1) + 1 \<le> k then cs ! (k - 1) sdiv of_int (int k)
                             else ?buf ! k) [0..<length ?buf]
                 = map (\<lambda>k. if nat i + 1 \<le> k then cs ! (k - 1) sdiv of_int (int k)
                             else buf ! k) [0..<length buf]"
    proof (rule map_cong)
      show "[0..<length ?buf] = [0..<length buf]" by simp
    next
      fix k assume "k \<in> set [0..<length buf]"
      then have k: "k < length buf" by simp
      consider "nat i + 2 \<le> k" | "k = nat i + 1" | "k < nat i + 1" by linarith
      then show "(if nat (i + 1) + 1 \<le> k then cs ! (k - 1) sdiv of_int (int k) else ?buf ! k)
               = (if nat i + 1 \<le> k then cs ! (k - 1) sdiv of_int (int k) else buf ! k)"
      proof cases
        case 1
        then have "nat (i + 1) + 1 \<le> k" and "nat i + 1 \<le> k"
          using "1.prems" by simp_all
        then show ?thesis by simp
      next
        case 2
        then have "nat (i + 1) = k" and "int k = i + 1" and "k - 1 = nat i"
          and "\<not> nat (i + 1) + 1 \<le> k" and "nat i + 1 \<le> k"
          using "1.prems" by simp_all
        then show ?thesis using k by simp
      next
        case 3
        then have "nat (i + 1) \<noteq> k" and "\<not> nat (i + 1) + 1 \<le> k" and "\<not> nat i + 1 \<le> k"
          using "1.prems" by simp_all
        then show ?thesis by simp
      qed
    qed
    ultimately show ?thesis
      using True ld st by (subst integral_loop.simps) simp
  next
    case False
    with "1.prems" have "nat i + 1 = length buf" by simp
    then have "map (\<lambda>k. if nat i + 1 \<le> k then cs ! (k - 1) sdiv of_int (int k) else buf ! k)
                 [0..<length buf] = buf"
      by (intro nth_equalityI) simp_all
    then show ?thesis
      using False by (subst integral_loop.simps) simp
  qed
qed

lemma integral_list:
  fixes p :: "'a::{signed_divide,ring_1} Polynomial"
  assumes "valid p" and "terms p = Some cs"
  shows "integral p
           = Inr \<lparr>terms = Some (0 # map (\<lambda>i. cs ! i sdiv of_int (int i + 1)) [0..<length cs]),
                  degree = degree p + 1\<rparr>"
proof -
  from assms have d: "degree p = int (length cs) - 1"
    by (auto elim: validE)
  have n: "nat (degree p + 2) = Suc (length cs)" using d by simp
  let ?z = "replicate (Suc (length cs)) (0::'a)"
  have alloc: "new_zeroed (degree p + 2) = (Inr ?z :: error + 'a list)"
    unfolding new_zeroed_def n using d by simp
  have "integral_loop p 0 ?z
          = Inr (map (\<lambda>k. if nat 0 + 1 \<le> k then cs ! (k - 1) sdiv of_int (int k) else ?z ! k)
                   [0..<length ?z])"
    using assms d by (intro integral_loop_map) auto
  also have "map (\<lambda>k. if nat 0 + 1 \<le> k then cs ! (k - 1) sdiv of_int (int k) else ?z ! k)
                   [0..<length ?z]
                 = 0 # map (\<lambda>i. cs ! i sdiv of_int (int i + 1)) [0..<length cs]"
    by (intro nth_equalityI) (auto simp del: upt_Suc simp: nth_Cons')
  finally have loop: "integral_loop p 0 ?z
          = Inr (0 # map (\<lambda>i. cs ! i sdiv of_int (int i + 1)) [0..<length cs])" .
  show ?thesis
    by (simp only: integral_def alloc loop sum.case)
qed

lemma integral_example:
  "and_then (Polynomial_init [1, 2 :: int]) integral = Inr \<lparr>terms = Some [0, 2, 0], degree = 2\<rparr>"
  by code_simp

lemma integral_truncates:
  "and_then (Polynomial_init [- 7, 0 :: int]) integral = Inr \<lparr>terms = Some [0, 0, - 3], degree = 2\<rparr>"
  by code_simp

text \<open>
  C6, amended. For a non-empty polynomial of degree \<open>d\<close> with coefficients \<open>cs\<close>,
  \<open>integral\<close> returns a polynomial of degree \<open>d + 1\<close> whose coefficient at index \<open>0\<close> is
  zero and whose coefficient at index \<open>i + 1\<close> is \<open>cs ! i\<close> divided by \<open>i + 1\<close> with the
  division of \<open>T\<close>, which truncates on integers without any correction (\<open>-7 / 2\<close> is
  \<open>-3\<close>). The constructor takes the highest coefficient first, so the polynomial
  constructed from \<open>[1, 2]\<close> is \<open>x + 2\<close>, and its integral has degree \<open>2\<close> with the
  coefficients \<open>0\<close>, \<open>2\<close> and \<open>0\<close> at the indices \<open>0\<close>, \<open>1\<close> and \<open>2\<close>.
\<close>

theorem integral_coefficients:
  fixes p :: "'a::{signed_divide,ring_1} Polynomial"
  assumes "valid p" and "terms p = Some cs"
  shows "integral p
           = Inr \<lparr>terms = Some (0 # map (\<lambda>i. cs ! i sdiv of_int (int i + 1)) [0..<length cs]),
                  degree = degree p + 1\<rparr>
         \<and> and_then (integral p) (\<lambda>r. operator_index r 0) = Inr 0
         \<and> (\<forall>i. 0 \<le> i \<and> i \<le> degree p \<longrightarrow>
               and_then (integral p) (\<lambda>r. operator_index r (i + 1))
                 = Inr (cs ! nat i sdiv of_int (i + 1)))
         \<and> and_then (Polynomial_init [1, 2 :: int]) integral
             = Inr \<lparr>terms = Some [0, 2, 0], degree = 2\<rparr>
         \<and> and_then (Polynomial_init [- 7, 0 :: int]) integral
             = Inr \<lparr>terms = Some [0, 0, - 3], degree = 2\<rparr>"
proof -
  from assms have d: "degree p = int (length cs) - 1"
    by (auto elim: validE)
  note r = integral_list [OF assms]
  have 0: "and_then (integral p) (\<lambda>r. operator_index r 0) = Inr 0"
    using d by (simp add: r operator_index_def load_def)
  have 1: "and_then (integral p) (\<lambda>r. operator_index r (i + 1))
             = Inr (cs ! nat i sdiv of_int (i + 1))" if "0 \<le> i \<and> i \<le> degree p" for i
  proof -
    from that have i: "0 \<le> i" "i \<le> degree p" by simp_all
    from i d have "nat (i + 1) = Suc (nat i)" and "nat i < length cs" by simp_all
    then show ?thesis
      using i d by (simp add: r operator_index_def load_def add.commute)
  qed
  from r 0 1 integral_example integral_truncates show ?thesis by blast
qed

theorem integral_coefficients_witness:
  "valid \<lparr>terms = Some [2, 1 :: int], degree = 1\<rparr>
   \<and> integral \<lparr>terms = Some [2, 1 :: int], degree = 1\<rparr>
       = Inr \<lparr>terms = Some [0, 2, 0], degree = 2\<rparr>
   \<and> operator_index \<lparr>terms = Some [0, 2, 0 :: int], degree = 2\<rparr> 1 = Inr 2"
proof -
  let ?p = "\<lparr>terms = Some [2, 1 :: int], degree = 1\<rparr>"
  have v: "valid ?p" by (simp add: valid_def)
  have t: "terms ?p = Some [2, 1]" by simp
  have s: "(1::int) sdiv 2 = 0" "(2::int) sdiv 1 = 2" by (simp_all add: signed_divide_int_def)
  have g: "operator_index \<lparr>terms = Some [0, 2, 0 :: int], degree = 2\<rparr> 1 = Inr 2"
    by (simp add: operator_index_def load_def)
  show ?thesis
    using v g integral_coefficients [OF v t] by (simp add: s)
qed

text \<open>
  The values \<open>get(1) = 1\<close> and \<open>get(2) = 1\<close> of the claim as written belong to
  \<open>1 + 2x\<close>, the list read lowest coefficient first.
\<close>

theorem integral_example_counterexample:
  "and_then (Polynomial_init [1, 2 :: int]) integral
     = Inr \<lparr>terms = Some [0, 2, 0], degree = 2\<rparr>
   \<and> operator_index \<lparr>terms = Some [0, 2, 0 :: int], degree = 2\<rparr> 1 \<noteq> Inr 1
   \<and> operator_index \<lparr>terms = Some [0, 2, 0 :: int], degree = 2\<rparr> 2 \<noteq> Inr 1"
  by code_simp

subsection \<open>Addition, subtraction and equality\<close>

lemma plus_loop_map:
  "(\<And>k. 0 \<le> k \<Longrightarrow> k \<le> md \<Longrightarrow> operator_index p k = Inr (f k)) \<Longrightarrow>
   (\<And>k. 0 \<le> k \<Longrightarrow> k \<le> md \<Longrightarrow> operator_index other k = Inr (g k)) \<Longrightarrow>
   int (length buf) = md + 1 \<Longrightarrow> 0 \<le> i \<Longrightarrow> i \<le> md + 1 \<Longrightarrow>
   plus_loop p other md i buf
     = Inr (map (\<lambda>k. if nat i \<le> k then f (int k) + g (int k) else buf ! k) [0..<length buf])"
proof (induction p other md i buf rule: plus_loop.induct)
  case (1 p other md i buf)
  show ?case
  proof (cases "i \<le> md")
    case True
    let ?buf = "buf[nat i := f i + g i]"
    have a: "operator_index p i = Inr (f i)" and b: "operator_index other i = Inr (g i)"
      using "1.prems" True by simp_all
    have st: "store buf i (f i + g i) = Inr ?buf"
      using "1.prems" True by (simp add: store_def)
    have "plus_loop p other md (i + 1) ?buf
            = Inr (map (\<lambda>k. if nat (i + 1) \<le> k then f (int k) + g (int k) else ?buf ! k)
                     [0..<length ?buf])"
      using True a b st "1.prems" by (intro "1.IH") auto
    moreover have "map (\<lambda>k. if nat (i + 1) \<le> k then f (int k) + g (int k) else ?buf ! k)
                     [0..<length ?buf]
                 = map (\<lambda>k. if nat i \<le> k then f (int k) + g (int k) else buf ! k)
                     [0..<length buf]"
    proof (rule map_cong)
      show "[0..<length ?buf] = [0..<length buf]" by simp
    next
      fix k assume "k \<in> set [0..<length buf]"
      then have k: "k < length buf" by simp
      consider "nat i + 1 \<le> k" | "k = nat i" | "k < nat i" by linarith
      then show "(if nat (i + 1) \<le> k then f (int k) + g (int k) else ?buf ! k)
               = (if nat i \<le> k then f (int k) + g (int k) else buf ! k)"
      proof cases
        case 1
        then have "nat (i + 1) \<le> k" and "nat i \<le> k"
          using "1.prems" by simp_all
        then show ?thesis by simp
      next
        case 2
        then have "int k = i" and "\<not> nat (i + 1) \<le> k" and "nat i \<le> k"
          using "1.prems" by simp_all
        then show ?thesis using k 2 by simp
      next
        case 3
        then have "nat i \<noteq> k" and "\<not> nat (i + 1) \<le> k" and "\<not> nat i \<le> k"
          using "1.prems" by simp_all
        then show ?thesis by simp
      qed
    qed
    ultimately show ?thesis
      using True a b st by (subst plus_loop.simps) simp
  next
    case False
    with "1.prems" have "nat i = length buf" by simp
    then have "map (\<lambda>k. if nat i \<le> k then f (int k) + g (int k) else buf ! k)
                 [0..<length buf] = buf"
      by (intro nth_equalityI) simp_all
    then show ?thesis
      using False by (subst plus_loop.simps) simp
  qed
qed

lemma operator_plus_map:
  assumes "\<And>k. 0 \<le> k \<Longrightarrow> k \<le> max (degree p) (degree other) \<Longrightarrow> operator_index p k = Inr (f k)"
    and "\<And>k. 0 \<le> k \<Longrightarrow> k \<le> max (degree p) (degree other) \<Longrightarrow> operator_index other k = Inr (g k)"
    and "0 \<le> max (degree p) (degree other)"
  shows "operator_plus p other
           = Inr \<lparr>terms = Some (map (\<lambda>k. f (int k) + g (int k))
                                  [0..<nat (max (degree p) (degree other) + 1)]),
                  degree = max (degree p) (degree other)\<rparr>"
proof -
  let ?md = "max (degree p) (degree other)"
  let ?z = "replicate (nat (?md + 1)) (0::'a)"
  have alloc: "new_zeroed (?md + 1) = (Inr ?z :: error + 'a list)"
    using assms(3) by (simp add: new_zeroed_def)
  have "plus_loop p other ?md 0 ?z
          = Inr (map (\<lambda>k. if nat 0 \<le> k then f (int k) + g (int k) else ?z ! k) [0..<length ?z])"
    using assms by (intro plus_loop_map) auto
  then have loop: "plus_loop p other ?md 0 ?z
          = Inr (map (\<lambda>k. f (int k) + g (int k)) [0..<nat (?md + 1)])"
    by simp
  show ?thesis
    by (simp only: operator_plus_def Let_def alloc loop sum.case)
qed

lemma minus_loop_map:
  "(\<And>k. 0 \<le> k \<Longrightarrow> k \<le> md \<Longrightarrow> operator_index p k = Inr (f k)) \<Longrightarrow>
   (\<And>k. 0 \<le> k \<Longrightarrow> k \<le> md \<Longrightarrow> operator_index other k = Inr (g k)) \<Longrightarrow>
   int (length buf) = md + 1 \<Longrightarrow> 0 \<le> i \<Longrightarrow> i \<le> md + 1 \<Longrightarrow>
   minus_loop p other md i buf
     = Inr (map (\<lambda>k. if nat i \<le> k then f (int k) - g (int k) else buf ! k) [0..<length buf])"
proof (induction p other md i buf rule: minus_loop.induct)
  case (1 p other md i buf)
  show ?case
  proof (cases "i \<le> md")
    case True
    let ?buf = "buf[nat i := f i - g i]"
    have a: "operator_index p i = Inr (f i)" and b: "operator_index other i = Inr (g i)"
      using "1.prems" True by simp_all
    have st: "store buf i (f i - g i) = Inr ?buf"
      using "1.prems" True by (simp add: store_def)
    have "minus_loop p other md (i + 1) ?buf
            = Inr (map (\<lambda>k. if nat (i + 1) \<le> k then f (int k) - g (int k) else ?buf ! k)
                     [0..<length ?buf])"
      using True a b st "1.prems" by (intro "1.IH") auto
    moreover have "map (\<lambda>k. if nat (i + 1) \<le> k then f (int k) - g (int k) else ?buf ! k)
                     [0..<length ?buf]
                 = map (\<lambda>k. if nat i \<le> k then f (int k) - g (int k) else buf ! k)
                     [0..<length buf]"
    proof (rule map_cong)
      show "[0..<length ?buf] = [0..<length buf]" by simp
    next
      fix k assume "k \<in> set [0..<length buf]"
      then have k: "k < length buf" by simp
      consider "nat i + 1 \<le> k" | "k = nat i" | "k < nat i" by linarith
      then show "(if nat (i + 1) \<le> k then f (int k) - g (int k) else ?buf ! k)
               = (if nat i \<le> k then f (int k) - g (int k) else buf ! k)"
      proof cases
        case 1
        then have "nat (i + 1) \<le> k" and "nat i \<le> k"
          using "1.prems" by simp_all
        then show ?thesis by simp
      next
        case 2
        then have "int k = i" and "\<not> nat (i + 1) \<le> k" and "nat i \<le> k"
          using "1.prems" by simp_all
        then show ?thesis using k 2 by simp
      next
        case 3
        then have "nat i \<noteq> k" and "\<not> nat (i + 1) \<le> k" and "\<not> nat i \<le> k"
          using "1.prems" by simp_all
        then show ?thesis by simp
      qed
    qed
    ultimately show ?thesis
      using True a b st by (subst minus_loop.simps) simp
  next
    case False
    with "1.prems" have "nat i = length buf" by simp
    then have "map (\<lambda>k. if nat i \<le> k then f (int k) - g (int k) else buf ! k)
                 [0..<length buf] = buf"
      by (intro nth_equalityI) simp_all
    then show ?thesis
      using False by (subst minus_loop.simps) simp
  qed
qed

lemma operator_minus_map:
  assumes "\<And>k. 0 \<le> k \<Longrightarrow> k \<le> max (degree p) (degree other) \<Longrightarrow> operator_index p k = Inr (f k)"
    and "\<And>k. 0 \<le> k \<Longrightarrow> k \<le> max (degree p) (degree other) \<Longrightarrow> operator_index other k = Inr (g k)"
    and "0 \<le> max (degree p) (degree other)"
  shows "operator_minus p other
           = Inr \<lparr>terms = Some (map (\<lambda>k. f (int k) - g (int k))
                                  [0..<nat (max (degree p) (degree other) + 1)]),
                  degree = max (degree p) (degree other)\<rparr>"
proof -
  let ?md = "max (degree p) (degree other)"
  let ?z = "replicate (nat (?md + 1)) (0::'a)"
  have alloc: "new_zeroed (?md + 1) = (Inr ?z :: error + 'a list)"
    using assms(3) by (simp add: new_zeroed_def)
  have "minus_loop p other ?md 0 ?z
          = Inr (map (\<lambda>k. if nat 0 \<le> k then f (int k) - g (int k) else ?z ! k) [0..<length ?z])"
    using assms by (intro minus_loop_map) auto
  then have loop: "minus_loop p other ?md 0 ?z
          = Inr (map (\<lambda>k. f (int k) - g (int k)) [0..<nat (?md + 1)])"
    by simp
  show ?thesis
    by (simp only: operator_minus_def Let_def alloc loop sum.case)
qed

lemma operator_index_valid:
  "valid p \<Longrightarrow> terms p = Some cs \<Longrightarrow> 0 \<le> k \<Longrightarrow>
   operator_index p k = Inr (if k \<le> degree p then cs ! nat k else 0)"
  by (auto simp: operator_index_def load_def elim!: validE)

lemma operator_index_moved_from:
  "terms e = None \<Longrightarrow> degree e = - 1 \<Longrightarrow> 0 \<le> k \<Longrightarrow> operator_index e k = Inr 0"
  by (simp add: operator_index_def)

lemma eq_loop_all:
  "terms p = Some cs \<Longrightarrow> terms other = Some ds \<Longrightarrow> length cs = length ds \<Longrightarrow>
   degree p = int (length cs) - 1 \<Longrightarrow> 0 \<le> i \<Longrightarrow> i \<le> int (length cs) \<Longrightarrow>
   eq_loop p other i = Inr (\<forall>k. nat i \<le> k \<and> k < length cs \<longrightarrow> cs ! k = ds ! k)"
proof (induction p other i rule: eq_loop.induct)
  case (1 p other i)
  show ?case
  proof (cases "i \<le> degree p")
    case True
    have a: "load (terms p) i = Inr (cs ! nat i)" and b: "load (terms other) i = Inr (ds ! nat i)"
      using "1.prems" True by (simp_all add: load_def)
    show ?thesis
    proof (cases "cs ! nat i = ds ! nat i")
      case same: True
      have "eq_loop p other (i + 1)
              = Inr (\<forall>k. nat (i + 1) \<le> k \<and> k < length cs \<longrightarrow> cs ! k = ds ! k)"
        using True a b same "1.prems" by (intro "1.IH") auto
      moreover have "(\<forall>k. nat (i + 1) \<le> k \<and> k < length cs \<longrightarrow> cs ! k = ds ! k)
                   = (\<forall>k. nat i \<le> k \<and> k < length cs \<longrightarrow> cs ! k = ds ! k)"
      proof -
        have "nat (i + 1) = Suc (nat i)" using "1.prems" by simp
        then show ?thesis
          using same by (metis Suc_leI le_neq_implies_less Suc_leD)
      qed
      ultimately show ?thesis
        using True a b same by (subst eq_loop.simps) simp
    next
      case False
      moreover have "nat i < length cs" using True "1.prems" by simp
      ultimately have "\<not> (\<forall>k. nat i \<le> k \<and> k < length cs \<longrightarrow> cs ! k = ds ! k)"
        by auto
      then show ?thesis
        using True a b False by (subst eq_loop.simps) simp
    qed
  next
    case False
    with "1.prems" have "nat i = length cs" by simp
    then have "\<forall>k. nat i \<le> k \<and> k < length cs \<longrightarrow> cs ! k = ds ! k" by auto
    then show ?thesis
      using False by (subst eq_loop.simps) simp
  qed
qed

lemma operator_eq_valid:
  assumes "valid p" and "valid other"
  shows "operator_eq p other = Inr (p = other)"
proof -
  from assms(1) obtain cs where cs: "terms p = Some cs" "degree p = int (length cs) - 1"
    by (auto elim: validE)
  from assms(2) obtain ds where ds: "terms other = Some ds" "degree other = int (length ds) - 1"
    by (auto elim: validE)
  show ?thesis
  proof (cases "degree p = degree other")
    case True
    then have len: "length cs = length ds" using cs ds by simp
    have "eq_loop p other 0 = Inr (\<forall>k. nat 0 \<le> k \<and> k < length cs \<longrightarrow> cs ! k = ds ! k)"
      using cs ds len by (intro eq_loop_all) auto
    moreover have "(\<forall>k. nat 0 \<le> k \<and> k < length cs \<longrightarrow> cs ! k = ds ! k) = (cs = ds)"
      using len by (auto simp: list_eq_iff_nth_eq)
    moreover have "(p = other) = (cs = ds)"
    proof
      assume "p = other"
      then show "cs = ds" using cs ds by simp
    next
      assume "cs = ds"
      then have "terms p = terms other" and "degree p = degree other"
        using cs ds by simp_all
      then show "p = other" by (rule Polynomial.equality) simp
    qed
    ultimately show ?thesis
      using True by (simp add: operator_eq_def)
  next
    case False
    then have "p \<noteq> other" by auto
    then show ?thesis
      using False by (simp add: operator_eq_def)
  qed
qed


lemma operator_plus_empty_left:
  fixes q :: "'a::monoid_add Polynomial"
  assumes "valid q" and "terms e = None" and "degree e = - 1"
  shows "operator_plus e q = Inr q"
proof -
  from assms(1) obtain ds where ds: "terms q = Some ds" "degree q = int (length ds) - 1" "ds \<noteq> []"
    by (auto elim: validE)
  have m: "max (degree e) (degree q) = degree q" using ds assms(3) by simp
  have l: "map (\<lambda>k. 0 + (if int k \<le> degree q then ds ! nat (int k) else 0))
             [0..<nat (degree q + 1)] = ds"
    using ds by (intro nth_equalityI) simp_all
  have "operator_plus e q
          = Inr \<lparr>terms = Some (map (\<lambda>k. 0 + (if int k \<le> degree q then ds ! nat (int k) else 0))
                                  [0..<nat (max (degree e) (degree q) + 1)]),
                 degree = max (degree e) (degree q)\<rparr>"
    using assms ds m
    by (intro operator_plus_map) (simp_all add: operator_index_moved_from operator_index_valid)
  also have "\<dots> = Inr \<lparr>terms = Some ds, degree = degree q\<rparr>"
    by (simp only: m l)
  also have "\<lparr>terms = Some ds, degree = degree q\<rparr> = q"
    using ds by simp
  finally show ?thesis .
qed

lemma operator_plus_empty_right:
  fixes q :: "'a::monoid_add Polynomial"
  assumes "valid q" and "terms e = None" and "degree e = - 1"
  shows "operator_plus q e = Inr q"
proof -
  from assms(1) obtain ds where ds: "terms q = Some ds" "degree q = int (length ds) - 1" "ds \<noteq> []"
    by (auto elim: validE)
  have m: "max (degree q) (degree e) = degree q" using ds assms(3) by simp
  have l: "map (\<lambda>k. (if int k \<le> degree q then ds ! nat (int k) else 0) + 0)
             [0..<nat (degree q + 1)] = ds"
    using ds by (intro nth_equalityI) simp_all
  have "operator_plus q e
          = Inr \<lparr>terms = Some (map (\<lambda>k. (if int k \<le> degree q then ds ! nat (int k) else 0) + 0)
                                  [0..<nat (max (degree q) (degree e) + 1)]),
                 degree = max (degree q) (degree e)\<rparr>"
    using assms ds m
    by (intro operator_plus_map) (simp_all add: operator_index_moved_from operator_index_valid)
  also have "\<dots> = Inr \<lparr>terms = Some ds, degree = degree q\<rparr>"
    by (simp only: m l)
  also have "\<lparr>terms = Some ds, degree = degree q\<rparr> = q"
    using ds by simp
  finally show ?thesis .
qed

text \<open>
  C10. For a non-empty polynomial \<open>q\<close> and an empty polynomial \<open>e\<close> in the moved-from
  state (no array, degree \<open>-1\<close>), both \<open>e + q\<close> and \<open>q + e\<close> succeed, and the result has
  the degree and the coefficients of \<open>q\<close>: it is \<open>q\<close>, and \<^verbatim>\<open>operator==\<close> says so. The
  reads of \<open>e\<close> are all out of its range and give zero.
\<close>

theorem plus_moved_from:
  fixes q :: "'a::monoid_add Polynomial"
  assumes "valid q" and "terms e = None" and "degree e = - 1"
  shows "operator_plus e q = Inr q \<and> operator_plus q e = Inr q
         \<and> and_then (operator_plus e q) (\<lambda>r. operator_eq r q) = Inr True
         \<and> and_then (operator_plus q e) (\<lambda>r. operator_eq r q) = Inr True"
  using assms
  by (simp add: operator_plus_empty_left operator_plus_empty_right operator_eq_valid)

theorem plus_moved_from_witness:
  "valid \<lparr>terms = Some [2, 1 :: int], degree = 1\<rparr>
   \<and> snd (Polynomial_move \<lparr>terms = Some [7 :: int], degree = 0\<rparr>) = moved_from
   \<and> operator_plus moved_from \<lparr>terms = Some [2, 1 :: int], degree = 1\<rparr>
       = Inr \<lparr>terms = Some [2, 1], degree = 1\<rparr>
   \<and> operator_plus \<lparr>terms = Some [2, 1 :: int], degree = 1\<rparr> moved_from
       = Inr \<lparr>terms = Some [2, 1], degree = 1\<rparr>"
proof -
  let ?q = "\<lparr>terms = Some [2, 1 :: int], degree = 1\<rparr>"
  let ?e = "moved_from :: int Polynomial"
  have v: "valid ?q" by (simp add: valid_def)
  have t: "terms ?e = None" and d: "degree ?e = - 1" by simp_all
  show ?thesis
    using v plus_moved_from [OF v t d] by (simp add: Polynomial_move_def)
qed

lemma operator_plus_valid:
  fixes p q :: "'a::{zero,plus} Polynomial"
  assumes "valid p" and "terms p = Some cs" and "valid q" and "terms q = Some ds"
  shows "operator_plus p q
           = Inr \<lparr>terms = Some (map (\<lambda>k. (if int k \<le> degree p then cs ! nat (int k) else 0)
                                        + (if int k \<le> degree q then ds ! nat (int k) else 0))
                                  [0..<nat (max (degree p) (degree q) + 1)]),
                  degree = max (degree p) (degree q)\<rparr>"
proof -
  have "0 \<le> degree p" using assms(1) by (auto elim: validE)
  then show ?thesis
    using assms by (intro operator_plus_map) (simp_all add: operator_index_valid)
qed

lemma operator_minus_valid:
  fixes p q :: "'a::{zero,minus} Polynomial"
  assumes "valid p" and "terms p = Some cs" and "valid q" and "terms q = Some ds"
  shows "operator_minus p q
           = Inr \<lparr>terms = Some (map (\<lambda>k. (if int k \<le> degree p then cs ! nat (int k) else 0)
                                        - (if int k \<le> degree q then ds ! nat (int k) else 0))
                                  [0..<nat (max (degree p) (degree q) + 1)]),
                  degree = max (degree p) (degree q)\<rparr>"
proof -
  have "0 \<le> degree p" using assms(1) by (auto elim: validE)
  then show ?thesis
    using assms by (intro operator_minus_map) (simp_all add: operator_index_valid)
qed

text \<open>
  C7, amended. For non-empty polynomials \<open>p\<close> and \<open>q\<close>, adding \<open>q\<close> to \<open>p\<close>, subtracting
  \<open>q\<close> again and comparing with \<open>p\<close> by \<^verbatim>\<open>operator==\<close> succeeds, and the answer is true
  exactly when the degree of \<open>q\<close> is at most the degree of \<open>p\<close>. The sum and the
  difference have the larger of the two degrees: the round trip yields the coefficients of
  \<open>p\<close> followed by one zero for every degree by which \<open>q\<close> exceeds \<open>p\<close>, so after a \<open>q\<close> of
  larger degree the result has the degree of \<open>q\<close> with zero leading coefficients, and the
  structural equality is false.
\<close>

theorem plus_minus_round_trip:
  fixes p q :: "'a::group_add Polynomial"
  assumes "valid p" and "valid q"
  shows "and_then (and_then (operator_plus p q) (\<lambda>r. operator_minus r q))
           (\<lambda>s. operator_eq s p) = Inr (degree q \<le> degree p)
         \<and> and_then (operator_plus p q) (\<lambda>r. operator_minus r q)
             = Inr \<lparr>terms = Some (the (terms p) @ replicate (nat (degree q - degree p)) 0),
                    degree = max (degree p) (degree q)\<rparr>"
proof -
  from assms(1) obtain cs where cs: "terms p = Some cs" "degree p = int (length cs) - 1" "cs \<noteq> []"
    by (auto elim: validE)
  from assms(2) obtain ds where ds: "terms q = Some ds" "degree q = int (length ds) - 1" "ds \<noteq> []"
    by (auto elim: validE)
  let ?md = "max (degree p) (degree q)"
  let ?rs = "map (\<lambda>k. (if int k \<le> degree p then cs ! nat (int k) else 0)
                      + (if int k \<le> degree q then ds ! nat (int k) else 0)) [0..<nat (?md + 1)]"
  let ?r = "\<lparr>terms = Some ?rs, degree = ?md\<rparr>"
  have "0 \<le> degree p" using assms(1) by (auto elim: validE)
  then have md: "0 \<le> ?md" by simp
  have r: "operator_plus p q = Inr ?r"
    using assms cs ds by (intro operator_plus_valid)
  have vr: "valid ?r" using md by (simp add: valid_def)
  have mr: "max (degree ?r) (degree q) = ?md" by simp
  let ?ss = "map (\<lambda>k. (if int k \<le> degree ?r then ?rs ! nat (int k) else 0)
                      - (if int k \<le> degree q then ds ! nat (int k) else 0))
                 [0..<nat (max (degree ?r) (degree q) + 1)]"
  let ?s = "\<lparr>terms = Some ?ss, degree = max (degree ?r) (degree q)\<rparr>"
  let ?pad = "cs @ replicate (nat (degree q - degree p)) 0"
  have s: "operator_minus ?r q = Inr ?s"
    using vr assms(2) ds by (intro operator_minus_valid) simp_all
  have vs: "valid ?s" using md by (simp add: valid_def)
  have e: "operator_eq ?s p = Inr (?s = p)"
    using vs assms(1) by (rule operator_eq_valid)
  have "0 < length cs" using cs by simp
  then have len: "nat (?md + 1) = length cs + nat (degree q - degree p)"
    using cs(2) by (auto simp: max_def)
  have ss: "?ss = ?pad"
  proof (rule nth_equalityI)
    show "length ?ss = length ?pad" using len by simp
  next
    fix k assume "k < length ?ss"
    then have k: "int k \<le> ?md" and k': "k < nat (?md + 1)" by simp_all
    have "?ss ! k = (if int k \<le> degree p then cs ! k else 0)"
      using k k' by simp
    also have "\<dots> = ?pad ! k"
      using k' len cs by (simp add: nth_append)
    finally show "?ss ! k = ?pad ! k" .
  qed
  have trip: "and_then (operator_plus p q) (\<lambda>r. operator_minus r q)
                = Inr \<lparr>terms = Some ?pad, degree = ?md\<rparr>"
    using ss by (simp only: r s and_then_Inr mr)
  have "(?s = p) = (degree q \<le> degree p)"
  proof (cases "degree q \<le> degree p")
    case True
    then have m: "?md = degree p" by simp
    have "?ss = cs" using ss True by simp
    then have "?s = p" using cs m by simp
    then show ?thesis using True by simp
  next
    case False
    then have "degree ?s \<noteq> degree p" by simp
    then have "?s \<noteq> p" by (rule contrapos_nn) (erule arg_cong)
    then show ?thesis using False by simp
  qed
  then have "and_then (and_then (operator_plus p q) (\<lambda>r. operator_minus r q))
               (\<lambda>s. operator_eq s p) = Inr (degree q \<le> degree p)"
    by (simp only: r s e and_then_Inr)
  moreover have "the (terms p) = cs" using cs by simp
  ultimately show ?thesis using trip by simp
qed

theorem plus_minus_round_trip_witness:
  "valid \<lparr>terms = Some [- 4, 0, 3 :: int], degree = 2\<rparr>
   \<and> valid \<lparr>terms = Some [2, 1 :: int], degree = 1\<rparr>
   \<and> and_then (and_then (operator_plus \<lparr>terms = Some [- 4, 0, 3 :: int], degree = 2\<rparr>
                            \<lparr>terms = Some [2, 1 :: int], degree = 1\<rparr>)
                 (\<lambda>r. operator_minus r \<lparr>terms = Some [2, 1 :: int], degree = 1\<rparr>))
        (\<lambda>s. operator_eq s \<lparr>terms = Some [- 4, 0, 3 :: int], degree = 2\<rparr>) = Inr True
   \<and> and_then (operator_plus \<lparr>terms = Some [2, 1 :: int], degree = 1\<rparr>
                  \<lparr>terms = Some [- 4, 0, 3 :: int], degree = 2\<rparr>)
        (\<lambda>r. operator_minus r \<lparr>terms = Some [- 4, 0, 3 :: int], degree = 2\<rparr>)
       = Inr \<lparr>terms = Some [2, 1, 0], degree = 2\<rparr>"
proof -
  let ?p = "\<lparr>terms = Some [- 4, 0, 3 :: int], degree = 2\<rparr>"
  let ?q = "\<lparr>terms = Some [2, 1 :: int], degree = 1\<rparr>"
  have vp: "valid ?p" and vq: "valid ?q" by (simp_all add: valid_def)
  have r: "replicate (nat (2 - 1)) (0::int) = [0]" by simp
  show ?thesis
    using vp vq plus_minus_round_trip [OF vp vq, THEN conjunct1]
      plus_minus_round_trip [OF vq vp, THEN conjunct2]
    by (simp add: r)
qed

text \<open>With \<open>p\<close> constructed from \<open>[1]\<close> and \<open>q\<close> from \<open>[1, 2]\<close> the round trip gives \<open>0x + 1\<close>,
  of degree \<open>1\<close>, which \<^verbatim>\<open>operator==\<close> does not equate with \<open>p\<close>.\<close>

theorem plus_minus_round_trip_counterexample:
  "Polynomial_init [1 :: int] = Inr \<lparr>terms = Some [1], degree = 0\<rparr>
   \<and> Polynomial_init [1, 2 :: int] = Inr \<lparr>terms = Some [2, 1], degree = 1\<rparr>
   \<and> operator_plus \<lparr>terms = Some [1 :: int], degree = 0\<rparr> \<lparr>terms = Some [2, 1], degree = 1\<rparr>
       = Inr \<lparr>terms = Some [3, 1], degree = 1\<rparr>
   \<and> operator_minus \<lparr>terms = Some [3, 1 :: int], degree = 1\<rparr> \<lparr>terms = Some [2, 1], degree = 1\<rparr>
       = Inr \<lparr>terms = Some [1, 0], degree = 1\<rparr>
   \<and> operator_eq \<lparr>terms = Some [1, 0 :: int], degree = 1\<rparr> \<lparr>terms = Some [1], degree = 0\<rparr>
       = Inr False"
  by code_simp

subsection \<open>Multiplication\<close>

lemma times_inner_no_iteration:
  "degree other < j \<Longrightarrow> times_inner p other i j buf = Inr buf"
  by (subst times_inner.simps) simp

lemma times_outer_empty_right:
  "degree other < 0 \<Longrightarrow> times_outer p other i buf = Inr buf"
proof (induction p other i buf rule: times_outer.induct)
  case (1 p other i buf)
  show ?case
  proof (cases "i \<le> degree p")
    case True
    have "times_inner p other i 0 buf = Inr buf"
      using "1.prems" by (rule times_inner_no_iteration)
    moreover from this have "times_outer p other (i + 1) buf = Inr buf"
      using True "1.prems" by (intro "1.IH")
    ultimately show ?thesis
      using True by (subst times_outer.simps) simp
  next
    case False
    then show ?thesis by (subst times_outer.simps) simp
  qed
qed

lemma times_outer_empty_left:
  "degree p < i \<Longrightarrow> times_outer p other i buf = Inr buf"
  by (subst times_outer.simps) simp

lemma operator_times_empty_right:
  fixes q :: "'a::{zero,plus,times} Polynomial"
  assumes "1 \<le> degree q" and "degree e = - 1"
  shows "operator_times q e
           = Inr \<lparr>terms = Some (replicate (nat (degree q)) 0), degree = degree q - 1\<rparr>"
  using assms by (simp add: operator_times_def new_zeroed_def times_outer_empty_right)

lemma operator_times_empty_left:
  fixes q :: "'a::{zero,plus,times} Polynomial"
  assumes "1 \<le> degree q" and "degree e = - 1"
  shows "operator_times e q
           = Inr \<lparr>terms = Some (replicate (nat (degree q)) 0), degree = degree q - 1\<rparr>"
  using assms by (simp add: operator_times_def new_zeroed_def times_outer_empty_left)

lemma operator_times_empty_throws:
  fixes q :: "'a::{zero,plus,times} Polynomial"
  assumes "degree q \<le> 0" and "degree e = - 1"
  shows "operator_times q e = Inl bad_array_new_length"
    and "operator_times e q = Inl bad_array_new_length"
  using assms by (simp_all add: operator_times_def new_zeroed_def)

text \<open>
  C1, amended. No operation of the class rejects an operand. With an empty polynomial \<open>e\<close>
  (no array, degree \<open>-1\<close>) and a non-empty \<open>q\<close> of degree \<open>d\<close>, both sums produce a
  polynomial, which is \<open>q\<close>; and for \<open>d \<ge> 1\<close> both products produce a polynomial too: the
  one of degree \<open>d - 1\<close> with all coefficients zero, since \<open>d + (-1) + 1 = d\<close> elements are
  allocated and the inner loop, or the outer one, runs no iteration.
\<close>

theorem empty_operand_not_rejected:
  fixes q :: "'a::semiring_0 Polynomial"
  assumes "valid q" and "terms e = None" and "degree e = - 1"
  shows "operator_plus e q = Inr q
         \<and> operator_plus q e = Inr q
         \<and> (1 \<le> degree q \<longrightarrow>
               operator_times q e
                 = Inr \<lparr>terms = Some (replicate (nat (degree q)) 0), degree = degree q - 1\<rparr>
               \<and> operator_times e q
                 = Inr \<lparr>terms = Some (replicate (nat (degree q)) 0), degree = degree q - 1\<rparr>)"
  using assms
  by (simp add: operator_plus_empty_left operator_plus_empty_right
      operator_times_empty_left operator_times_empty_right)

theorem empty_operand_not_rejected_witness:
  "valid \<lparr>terms = Some [- 4, 0, 3 :: int], degree = 2\<rparr>
   \<and> operator_plus moved_from \<lparr>terms = Some [- 4, 0, 3 :: int], degree = 2\<rparr>
       = Inr \<lparr>terms = Some [- 4, 0, 3], degree = 2\<rparr>
   \<and> operator_times \<lparr>terms = Some [- 4, 0, 3 :: int], degree = 2\<rparr> moved_from
       = Inr \<lparr>terms = Some [0, 0], degree = 1\<rparr>
   \<and> operator_times moved_from \<lparr>terms = Some [- 4, 0, 3 :: int], degree = 2\<rparr>
       = Inr \<lparr>terms = Some [0, 0], degree = 1\<rparr>"
proof -
  let ?q = "\<lparr>terms = Some [- 4, 0, 3 :: int], degree = 2\<rparr>"
  let ?e = "moved_from :: int Polynomial"
  have v: "valid ?q" by (simp add: valid_def)
  have t: "terms ?e = None" and d: "degree ?e = - 1" by simp_all
  have r: "replicate 2 (0::int) = [0, 0]" by (simp add: numeral_2_eq_2)
  show ?thesis
    using v empty_operand_not_rejected [OF v t d] by (simp add: r)
qed

text \<open>The sum of an empty operand and the polynomial constructed from \<open>[1, 2]\<close>, and the
  product of the one constructed from \<open>[3, 0, -4]\<close> and an empty operand, are results, not
  errors.\<close>

theorem empty_operand_counterexample:
  "operator_plus moved_from \<lparr>terms = Some [2, 1 :: int], degree = 1\<rparr>
     = Inr \<lparr>terms = Some [2, 1], degree = 1\<rparr>
   \<and> operator_times \<lparr>terms = Some [- 4, 0, 3 :: int], degree = 2\<rparr> moved_from
       = Inr \<lparr>terms = Some [0, 0], degree = 1\<rparr>"
  by code_simp

subsection \<open>Printing\<close>

lemma lshift_loop_step:
  "0 \<le> i \<Longrightarrow> load (terms poly) i = Inr c \<Longrightarrow>
   lshift_loop sh poly i first os
     = lshift_loop sh poly (i - 1) False (os @ term_text sh first c i)"
  by (subst lshift_loop.simps) (simp add: term_text_def Let_def)

lemma lshift_loop_concat:
  "terms poly = Some cs \<Longrightarrow> - 1 \<le> i \<Longrightarrow> i < int (length cs) \<Longrightarrow> n = nat (i + 1) \<Longrightarrow>
   lshift_loop sh poly i first os
     = Inr (os @ concat (map (\<lambda>k. term_text sh (first \<and> int k = i) (cs ! k) (int k))
                           (rev [0..<n])))"
proof (induction n arbitrary: i first os)
  case 0
  then have "i = - 1" by simp
  then show ?case by (subst lshift_loop.simps) simp
next
  case (Suc n)
  then have i: "0 \<le> i" "nat i = n" "int n = i" by simp_all
  have ld: "load (terms poly) i = Inr (cs ! n)"
    using Suc.prems i by (simp add: load_def)
  have step: "lshift_loop sh poly (i - 1) False (os @ term_text sh first (cs ! n) i)
          = Inr ((os @ term_text sh first (cs ! n) i)
                 @ concat (map (\<lambda>k. term_text sh (False \<and> int k = i - 1) (cs ! k) (int k))
                             (rev [0..<n])))"
    using Suc.prems i by (intro Suc.IH) simp_all
  have rest: "map (\<lambda>k. term_text sh (first \<and> int k = i) (cs ! k) (int k)) (rev [0..<n])
               = map (\<lambda>k. term_text sh (False \<and> int k = i - 1) (cs ! k) (int k)) (rev [0..<n])"
    using i by (intro map_cong) auto
  have "map (\<lambda>k. term_text sh (first \<and> int k = i) (cs ! k) (int k)) (rev [0..<Suc n])
          = term_text sh first (cs ! n) i
            # map (\<lambda>k. term_text sh (False \<and> int k = i - 1) (cs ! k) (int k)) (rev [0..<n])"
    using i rest by simp
  then show ?case
    by (simp only: lshift_loop_step [OF i(1) ld] step concat.simps append_assoc)
qed

text \<open>
  C8. For a non-empty polynomial the printing operator appends to the stream the text of
  one term for every index from the degree down to \<open>0\<close>, none left out, each as
  \<open>term_text\<close> words it, with only the term of the highest index counted as the first. A
  zero coefficient is rendered like any other: at index \<open>2\<close> it gives \<open>" + 0x^2"\<close> after
  an earlier term and \<open>"0x^2"\<close> as the first term. The absolute value is printed unless it
  is \<open>1\<close> on a term of non-zero index.
\<close>

theorem operator_lshift_terms:
  fixes poly :: "'a::{zero,one,ord,abs} Polynomial"
  assumes "valid poly" and "terms poly = Some cs"
  shows "operator_lshift sh os poly
           = Inr (os @ concat (map (\<lambda>k. term_text sh (int k = degree poly) (cs ! k) (int k))
                                 (rev [0..<length cs])))
         \<and> term_text show_int False (0 :: int) 2 = '' + 0x^2''
         \<and> term_text show_int True (0 :: int) 2 = ''0x^2''
         \<and> term_text show_int False (1 :: int) 2 = '' + x^2''
         \<and> term_text show_int False (- 1 :: int) 1 = '' - x''
         \<and> term_text show_int False (1 :: int) 0 = '' + 1''
         \<and> term_text show_int False (- 7 :: int) 3 = '' - 7x^3''"
proof -
  from assms have d: "degree poly = int (length cs) - 1"
    by (auto elim: validE)
  have "operator_lshift sh os poly
          = Inr (os @ concat (map (\<lambda>k. term_text sh (True \<and> int k = degree poly) (cs ! k) (int k))
                                (rev [0..<length cs])))"
    unfolding operator_lshift_def using assms(2) d by (intro lshift_loop_concat) simp_all
  moreover have "term_text show_int False (0 :: int) 2 = '' + 0x^2''"
    and "term_text show_int True (0 :: int) 2 = ''0x^2''"
    and "term_text show_int False (1 :: int) 2 = '' + x^2''"
    and "term_text show_int False (- 1 :: int) 1 = '' - x''"
    and "term_text show_int False (1 :: int) 0 = '' + 1''"
    and "term_text show_int False (- 7 :: int) 3 = '' - 7x^3''"
    by (simp_all add: term_text_def show_int_def show_nat.simps)
  ultimately show ?thesis by simp
qed

theorem operator_lshift_terms_witness:
  "valid \<lparr>terms = Some [0, 1, 0, - 1 :: int], degree = 3\<rparr>
   \<and> operator_lshift show_int [] \<lparr>terms = Some [0, 1, 0, - 1 :: int], degree = 3\<rparr>
       = Inr '' - x^3 + 0x^2 + x + 0''"
proof -
  let ?p = "\<lparr>terms = Some [0, 1, 0, - 1 :: int], degree = 3\<rparr>"
  have v: "valid ?p" by (simp add: valid_def)
  have t: "terms ?p = Some [0, 1, 0, - 1]" by simp
  have u: "rev [0..<4] = [3, 2, 1, 0::nat]" by (simp add: upt_rec)
  show ?thesis
    using v operator_lshift_terms [OF v t, of show_int "[]"]
    by (simp add: u term_text_def show_int_def show_nat.simps)
qed

text \<open>
  C9, amended. The polynomial of degree \<open>2\<close> constructed from the list \<open>[3, 0, -4]\<close>, highest
  coefficient first, is printed as exactly \<open>3x^2 + 0x - 4\<close>: the zero term is not left out.
\<close>

theorem operator_lshift_3_0_minus_4:
  "and_then (Polynomial_init [3, 0, - 4 :: int]) (operator_lshift show_int []) = Inr ''3x^2 + 0x - 4''"
  by code_simp

text \<open>The output is not \<open>3x^2 - 4\<close>.\<close>

theorem operator_lshift_3_0_minus_4_counterexample:
  "and_then (Polynomial_init [3, 0, - 4 :: int]) (operator_lshift show_int []) \<noteq> Inr ''3x^2 - 4''"
  by code_simp

end
